theory Spec2Isabelle
  imports Complex_Main "HOL-Library.Sublist" "HOL-Library.AList"
begin

section \<open>Text\<close>

text \<open>
  A Python \<open>str\<close> is modelled as a \<open>string\<close>; a character stands for the code point of
  the same number, so the model covers texts over the code points below 256. The
  character classes below are those of Python 3 for that range.
\<close>

abbreviation LF :: char where
  "LF \<equiv> CHR 0x0A"

abbreviation CR :: char where
  "CR \<equiv> CHR 0x0D"

definition is_linebreak :: "char \<Rightarrow> bool" where
  \<comment> \<open>the line boundaries of \<open>str.splitlines\<close>\<close>
  "is_linebreak c \<longleftrightarrow>
     c \<in> set [CHR 0x0A, CHR 0x0B, CHR 0x0C, CHR 0x0D, CHR 0x1C, CHR 0x1D, CHR 0x1E, CHR 0x85]"

fun splitlines_from :: "string \<Rightarrow> string \<Rightarrow> string list" where
  "splitlines_from cur [] = (if cur = [] then [] else [cur])"
| "splitlines_from cur (c # cs) =
     (if is_linebreak c then
        cur # (case cs of
                 [] \<Rightarrow> splitlines_from [] cs
               | d # ds \<Rightarrow> if c = CR \<and> d = LF then splitlines_from [] ds
                           else splitlines_from [] cs)
      else splitlines_from (cur @ [c]) cs)"

definition splitlines :: "string \<Rightarrow> string list" where
  \<comment> \<open>\<open>raw.splitlines()\<close>: no line keeps its line break, a final line break opens no line\<close>
  "splitlines raw = splitlines_from [] raw"

fun rsplit_last :: "string \<Rightarrow> string \<Rightarrow> (string \<times> string) option" where
  \<comment> \<open>the text before and after the last occurrence of a separator\<close>
  "rsplit_last sep [] = None"
| "rsplit_last sep (c # cs) =
     (case rsplit_last sep cs of
        Some (a, b) \<Rightarrow> Some (c # a, b)
      | None \<Rightarrow> if prefix sep (c # cs) then Some ([], drop (length sep) (c # cs)) else None)"

section \<open>analyze.py: the diff parser\<close>

record file_change =
  old_path :: string
  new_path :: string
  is_new :: bool
  is_deleted :: bool
  added_lines :: "string list"
  deleted_lines :: "string list"

definition match_header :: "string \<Rightarrow> (string \<times> string) option" where
  \<comment> \<open>\<open>re.match(r'^diff --git a/(.*) b/(.*)', line)\<close>: the groups are greedy and a dot
      matches every character but the line feed\<close>
  "match_header line =
     (if prefix ''diff --git a/'' line
      then rsplit_last '' b/'' (takeWhile (\<lambda>c. c \<noteq> LF) (drop 13 line))
      else None)"

definition new_record :: "string \<Rightarrow> string \<Rightarrow> file_change" where
  "new_record old new =
     \<lparr>old_path = old, new_path = new, is_new = False, is_deleted = False,
      added_lines = [], deleted_lines = []\<rparr>"

definition apply_line :: "string \<Rightarrow> file_change \<Rightarrow> file_change" where
  "apply_line line cur =
     (if prefix ''new file mode'' line then cur\<lparr>is_new := True\<rparr>
      else if prefix ''deleted file mode'' line then cur\<lparr>is_deleted := True\<rparr>
      else if prefix ''+'' line \<and> \<not> prefix ''+++'' line
        then cur\<lparr>added_lines := added_lines cur @ [drop 1 line]\<rparr>
      else if prefix ''-'' line \<and> \<not> prefix ''---'' line
        then cur\<lparr>deleted_lines := deleted_lines cur @ [drop 1 line]\<rparr>
      else cur)"

text \<open>
  The loop of \<open>parse_diff\<close>. \<open>current\<close> is the record appended last to \<open>files\<close>, and it is
  \<open>None\<close> exactly as long as \<open>files\<close> is empty, so the state of the loop is \<open>files\<close> alone
  and a change of \<open>current\<close> is a change of the last element.
\<close>

fun parse_loop :: "file_change list \<Rightarrow> string list \<Rightarrow> file_change list" where
  "parse_loop files [] = files"
| "parse_loop files (line # rest) =
     (case match_header line of
        Some (old, new) \<Rightarrow> parse_loop (files @ [new_record old new]) rest
      | None \<Rightarrow>
          if files = [] then parse_loop files rest
          else parse_loop (butlast files @ [apply_line line (last files)]) rest)"

definition parse_diff :: "string \<Rightarrow> file_change list" where
  "parse_diff raw = parse_loop [] (splitlines raw)"

text \<open>
  The lines that follow each header line up to the next header line: the block of the
  record that the header opens.
\<close>

fun header_blocks :: "string list \<Rightarrow> string list list" where
  "header_blocks [] = []"
| "header_blocks (l # ls) =
     (if match_header l \<noteq> None
      then takeWhile (\<lambda>l. match_header l = None) ls # header_blocks ls
      else header_blocks ls)"

definition has_new_mode :: "string list \<Rightarrow> bool" where
  "has_new_mode b \<longleftrightarrow> list_ex (prefix ''new file mode'') b"

definition has_deleted_mode :: "string list \<Rightarrow> bool" where
  "has_deleted_mode b \<longleftrightarrow> list_ex (prefix ''deleted file mode'') b"

section \<open>Character classes and string operations\<close>

definition is_space :: "char \<Rightarrow> bool" where
  \<comment> \<open>the class \<open>\<bsol>s\<close> of a \<open>str\<close> pattern\<close>
  "is_space c \<longleftrightarrow>
     c \<in> set [CHR 0x09, CHR 0x0A, CHR 0x0B, CHR 0x0C, CHR 0x0D, CHR 0x1C, CHR 0x1D,
              CHR 0x1E, CHR 0x1F, CHR 0x20, CHR 0x85, CHR 0xA0]"

definition is_upper :: "char \<Rightarrow> bool" where
  \<comment> \<open>the uppercase letters among the code points below 256: A to Z, and U+00C0 to U+00DE
      but the multiplication sign. Beyond that range \<open>str.lower\<close> leaves some uppercase
      characters as they are (U+03D2 is one); such texts are outside the model\<close>
  "is_upper c \<longleftrightarrow>
     (let n = (of_char c :: nat)
      in (65 \<le> n \<and> n \<le> 90) \<or> (192 \<le> n \<and> n \<le> 222 \<and> n \<noteq> 215))"

definition lower_char :: "char \<Rightarrow> char" where
  "lower_char c = (if is_upper c then char_of ((of_char c :: nat) + 32) else c)"

definition py_lower :: "string \<Rightarrow> string" where
  \<comment> \<open>\<open>s.lower()\<close>\<close>
  "py_lower s = map lower_char s"

definition is_word_char :: "char \<Rightarrow> bool" where
  \<comment> \<open>the class \<open>\<bsol>w\<close> of a \<open>str\<close> pattern: alphanumeric or the underscore\<close>
  "is_word_char c \<longleftrightarrow>
     (let n = (of_char c :: nat)
      in (48 \<le> n \<and> n \<le> 57) \<or> (65 \<le> n \<and> n \<le> 90) \<or> n = 95 \<or> (97 \<le> n \<and> n \<le> 122)
         \<or> n = 170 \<or> n = 178 \<or> n = 179 \<or> n = 181 \<or> n = 185 \<or> n = 186
         \<or> (188 \<le> n \<and> n \<le> 190) \<or> (192 \<le> n \<and> n \<noteq> 215 \<and> n \<noteq> 247))"

fun split_on :: "char \<Rightarrow> string \<Rightarrow> string list" where
  \<comment> \<open>\<open>s.split(sep)\<close> for a separator of one character: never an empty list\<close>
  "split_on sep [] = [[]]"
| "split_on sep (c # cs) =
     (if c = sep then [] # split_on sep cs
      else (case split_on sep cs of
              [] \<Rightarrow> [[c]]
            | p # ps \<Rightarrow> (c # p) # ps))"

fun join :: "string \<Rightarrow> string list \<Rightarrow> string" where
  \<comment> \<open>\<open>sep.join(parts)\<close>\<close>
  "join sep [] = []"
| "join sep [p] = p"
| "join sep (p # q # ps) = p @ sep @ join sep (q # ps)"

definition rfind :: "char \<Rightarrow> string \<Rightarrow> int" where
  \<comment> \<open>\<open>s.rfind(c)\<close>: the highest index of \<open>c\<close>, or -1\<close>
  "rfind c s =
     (if c \<in> set s then int (length s) - 1 - int (length (takeWhile (\<lambda>x. x \<noteq> c) (rev s)))
      else - 1)"

definition splitext :: "string \<Rightarrow> string \<times> string" where
  \<comment> \<open>\<open>os.path.splitext\<close> of \<open>posixpath\<close>: the extension starts at the last dot of the last
      component, unless only dots precede it there\<close>
  "splitext p =
     (let sepIndex = rfind (CHR ''/'') p;
          dotIndex = rfind (CHR ''.'') p
      in if dotIndex > sepIndex
            \<and> list_ex (\<lambda>c. c \<noteq> CHR ''.'')
                 (take (nat (dotIndex - (sepIndex + 1))) (drop (nat (sepIndex + 1)) p))
         then (take (nat dotIndex) p, drop (nat dotIndex) p)
         else (p, []))"

fun py_max_from :: "('a \<Rightarrow> int) \<Rightarrow> 'a \<Rightarrow> 'a list \<Rightarrow> 'a" where
  \<comment> \<open>\<open>max(iterable, key=key)\<close> on an iterable with a first item: a later item replaces
      the best one only when its key is strictly greater\<close>
  "py_max_from key best [] = best"
| "py_max_from key best (x # xs) =
     py_max_from key (if key x > key best then x else best) xs"

section \<open>analyze.py: the heuristics on one file\<close>

definition normalize_ws :: "string \<Rightarrow> string" where
  \<comment> \<open>\<open>re.sub(r'\<bsol>s+', '', s)\<close>\<close>
  "normalize_ws s = filter (\<lambda>c. \<not> is_space c) s"

fun lines_agree :: "(string \<times> string) list \<Rightarrow> bool" where
  \<comment> \<open>the loop of \<open>is_style_only\<close> over the zipped lines\<close>
  "lines_agree [] = True"
| "lines_agree ((a, d) # rest) =
     (if normalize_ws a \<noteq> normalize_ws d then False else lines_agree rest)"

definition is_style_only :: "file_change \<Rightarrow> bool" where
  "is_style_only f =
     (if added_lines f = [] \<or> deleted_lines f = [] then False
      else if \<bar>int (length (added_lines f)) - int (length (deleted_lines f))\<bar>
              > max 1 (int (length (added_lines f)) div 3) then False
      else lines_agree (zip (added_lines f) (deleted_lines f)))"

definition is_refactor :: "file_change \<Rightarrow> bool" where
  \<comment> \<open>the quotient is a float in the source; it lies on the same side of 0.5 as the exact
      quotient for all lengths below \<open>2 ^ 53\<close>\<close>
  "is_refactor f =
     (if is_new f \<or> is_deleted f then False
      else let a = int (length (added_lines f)); d = int (length (deleted_lines f))
           in if a = 0 \<or> d = 0 then False
              else (real_of_int (min a d) / real_of_int (max a d) > 0.5 \<and> a \<ge> 3))"

section \<open>analyze.py: scope detection\<close>

definition change_counts :: "file_change list \<Rightarrow> (string \<times> int) list" where
  \<comment> \<open>the dictionary \<open>change_counts\<close>, in insertion order: a path seen again keeps its
      place and takes the new count\<close>
  "change_counts files =
     foldl (\<lambda>d f. AList.update (new_path f)
                     (int (length (added_lines f)) + int (length (deleted_lines f))) d)
       [] files"

definition scope_candidate :: "string \<Rightarrow> string" where
  \<comment> \<open>the first path segment, or the root-level filename without its extension\<close>
  "scope_candidate path =
     (let parts = split_on (CHR ''/'') path
      in if length parts > 1 then hd parts else fst (splitext (hd parts)))"

definition analyze_detect_scope :: "file_change list \<Rightarrow> string" where
  \<comment> \<open>\<open>max\<close> runs over the keys with their counts as keys of comparison, that is over the
      items by their second component; the set \<open>dirs\<close> is the list of candidates without
      duplicates, and its only element is popped when it has one\<close>
  "analyze_detect_scope files =
     (if files = [] then []
      else
        case change_counts files of
          [] \<Rightarrow> []
        | item # others \<Rightarrow>
            if others = [] then
              (let path = fst item; parts = split_on (CHR ''/'') path
               in if length parts = 1 then py_lower (fst (splitext (hd parts)))
                  else py_lower (hd parts))
            else
              (let most_changed = fst (py_max_from snd item others);
                   dirs = remdups (map (\<lambda>(path, n). scope_candidate path) (item # others))
               in if length dirs = 1 then py_lower (hd dirs)
                  else
                    (let parts = split_on (CHR ''/'') most_changed
                     in if length parts > 1 then py_lower (hd parts)
                        else py_lower (fst (splitext (hd parts))))))"

section \<open>analyze.py: summary generation\<close>

definition digit_char :: "nat \<Rightarrow> char" where
  "digit_char n = char_of (48 + n)"

function str_nat :: "nat \<Rightarrow> string" where
  "str_nat n = (if n < 10 then [digit_char n] else str_nat (n div 10) @ [digit_char (n mod 10)])"
  by pat_completeness auto
termination
  by (relation "measure (\<lambda>n. n)") auto

declare str_nat.simps [simp del]

definition str_int :: "int \<Rightarrow> string" where
  \<comment> \<open>an integer in an f-string: decimal digits, with a minus sign below zero\<close>
  "str_int i = (if i < 0 then CHR ''-'' # str_nat (nat (- i)) else str_nat (nat i))"

definition file_clause :: "string \<Rightarrow> int \<Rightarrow> string" where
  \<comment> \<open>\<open>f"add {n} file{'s' if n > 1 else ''}"\<close>, for each of the three verbs\<close>
  "file_clause verb n = verb @ '' '' @ str_int n @ '' file'' @ (if n > 1 then ''s'' else '''')"

definition count_where :: "('a \<Rightarrow> bool) \<Rightarrow> 'a list \<Rightarrow> int" where
  \<comment> \<open>\<open>sum(1 for f in files if P(f))\<close>\<close>
  "count_where P xs = int (length (filter P xs))"

definition detect_summary :: "file_change list \<Rightarrow> string \<Rightarrow> string" where
  "detect_summary files commit_type =
     (if files = [] then ''empty change''
      else if length files = 1 then
        (let f = hd files; name = last (split_on (CHR ''/'') (new_path f))
         in if is_new f then ''add '' @ name
            else if is_deleted f then ''remove '' @ name
            else if commit_type = ''fix'' then ''fix issue in '' @ name
            else if commit_type = ''refactor'' then ''refactor '' @ name
            else if commit_type = ''style'' then ''format '' @ name
            else if commit_type = ''docs'' then ''update '' @ name
            else if commit_type = ''test'' then ''update tests in '' @ name
            else ''update '' @ name)
      else
        (let new_count = count_where is_new files;
             del_count = count_where is_deleted files;
             mod_count = int (length files) - new_count - del_count;
             parts1 = (if new_count \<noteq> 0 then [file_clause ''add'' new_count] else []);
             parts2 = (if del_count \<noteq> 0 then parts1 @ [file_clause ''remove'' del_count]
                       else parts1);
             parts3 = (if mod_count \<noteq> 0 then parts2 @ [file_clause ''update'' mod_count]
                       else parts2)
         in if parts3 \<noteq> [] then join '', '' parts3
            else ''update '' @ str_int (int (length files)) @ '' files''))"

text \<open>
  The subject of several files in the words of the specification: the clauses of the
  counts that are not zero, in the order given, joined with a comma and a space.
\<close>

definition clause_list :: "(string \<times> int) list \<Rightarrow> string" where
  "clause_list cs =
     join '', '' (map (\<lambda>(verb, n). file_clause verb n) (filter (\<lambda>(verb, n). n \<noteq> 0) cs))"

section \<open>run.py: classification from file statuses and the whole diff text\<close>

record staged_file =
  status :: string
  path :: string

definition run_DOC_PATTERNS :: "string list" where
  "run_DOC_PATTERNS = [''.md'', ''.txt'', ''.rst'', ''.adoc'']"

definition CONFIG_PATTERNS :: "string list" where
  "CONFIG_PATTERNS = [''.json'', ''.yml'', ''.yaml'', ''.toml'', ''.ini'', ''.cfg'', ''.conf'', ''.env'']"

definition run_TEST_PATTERNS :: "string list" where
  "run_TEST_PATTERNS = [''test'', ''spec'', ''__tests__'', ''tests'']"

definition FIX_KEYWORDS :: "string list" where
  "FIX_KEYWORDS = [''fix'', ''bug'', ''error'', ''patch'', ''issue'', ''crash'', ''broken'']"

definition PERF_KEYWORDS :: "string list" where
  "PERF_KEYWORDS = [''perf'', ''optimize'', ''cache'', ''speed'', ''fast'', ''slow'', ''memory'']"

definition path_parts :: "string \<Rightarrow> string list" where
  \<comment> \<open>\<open>Path(p).parts\<close> of a POSIX path: the root if the path has one, then the components
      that are neither empty nor a single dot\<close>
  "path_parts p =
     (let slashes = length (takeWhile (\<lambda>c. c = CHR ''/'') p);
          root = (if slashes = 0 then [] else if slashes = 2 then [''//''] else [''/'']);
          rel = drop slashes p
      in root @ filter (\<lambda>x. x \<noteq> [] \<and> x \<noteq> ''.'') (split_on (CHR ''/'') rel))"

definition path_name :: "string \<Rightarrow> string" where
  \<comment> \<open>\<open>Path(p).name\<close>: the last component, empty when the path is only a root or is empty\<close>
  "path_name p =
     (let parts = path_parts p;
          anchored = (p \<noteq> [] \<and> hd p = CHR ''/'')
      in if length parts = (if anchored then 1 else 0) then [] else last parts)"

definition path_suffix :: "string \<Rightarrow> string" where
  \<comment> \<open>\<open>Path(p).suffix\<close>: from the last dot of the name, when that dot is neither its first
      nor its last character\<close>
  "path_suffix p =
     (let name = path_name p; i = rfind (CHR ''.'') name
      in if 0 < i \<and> i < int (length name) - 1 then drop (nat i) name else [])"

function count_sub :: "string \<Rightarrow> string \<Rightarrow> int" where
  \<comment> \<open>\<open>s.count(pat)\<close>: the occurrences of \<open>pat\<close> that do not overlap, from the left\<close>
  "count_sub pat s =
     (if pat = [] then int (length s) + 1
      else if s = [] then 0
      else if prefix pat s then 1 + count_sub pat (drop (length pat) s)
      else count_sub pat (tl s))"
  by pat_completeness auto
termination
  by (relation "measure (\<lambda>(pat, s). length s)") auto

declare count_sub.simps [simp del]

definition all_new :: "staged_file list \<Rightarrow> bool" where
  \<comment> \<open>\<open>all(s == "A" for s in statuses)\<close>\<close>
  "all_new files \<longleftrightarrow> list_all (\<lambda>s. s = ''A'') (map status files)"

definition all_test :: "staged_file list \<Rightarrow> bool" where
  \<comment> \<open>\<open>all(any(tp in p.lower() for tp in TEST_PATTERNS) for p in paths)\<close>\<close>
  "all_test files \<longleftrightarrow>
     list_all (\<lambda>p. list_ex (\<lambda>tp. sublist tp (py_lower p)) run_TEST_PATTERNS) (map path files)"

definition all_doc :: "staged_file list \<Rightarrow> bool" where
  \<comment> \<open>\<open>all(Path(p).suffix.lower() in DOC_PATTERNS for p in paths)\<close>\<close>
  "all_doc files \<longleftrightarrow>
     list_all (\<lambda>p. py_lower (path_suffix p) \<in> set run_DOC_PATTERNS) (map path files)"

definition all_config :: "staged_file list \<Rightarrow> bool" where
  \<comment> \<open>\<open>all(Path(p).suffix.lower() in CONFIG_PATTERNS for p in paths)\<close>\<close>
  "all_config files \<longleftrightarrow>
     list_all (\<lambda>p. py_lower (path_suffix p) \<in> set CONFIG_PATTERNS) (map path files)"

definition has_keyword :: "string list \<Rightarrow> string \<Rightarrow> bool" where
  \<comment> \<open>\<open>any(kw in diff_lower for kw in keywords)\<close>\<close>
  "has_keyword keywords diff_lower \<longleftrightarrow> list_ex (\<lambda>kw. sublist kw diff_lower) keywords"

definition added_count :: "string \<Rightarrow> int" where
  "added_count diff_lower =
     count_sub ''\<newline>+'' diff_lower - count_sub ''\<newline>+++'' diff_lower"

definition removed_count :: "string \<Rightarrow> int" where
  "removed_count diff_lower =
     count_sub ''\<newline>-'' diff_lower - count_sub ''\<newline>---'' diff_lower"

text \<open>
  What the two counters count, in terms of lines: the lines of a text after its first
  line, a line ending at each line feed, that start with a mark (\<open>-\<close> or \<open>+\<close>) but not
  with the header mark (\<open>---\<close> or \<open>+++\<close>).
\<close>

definition marked_lines :: "string \<Rightarrow> string \<Rightarrow> string \<Rightarrow> int" where
  "marked_lines mark header text =
     count_where (\<lambda>l. prefix mark l \<and> \<not> prefix header l) (tl (split_on LF text))"

definition run_detect_type :: "staged_file list \<Rightarrow> string \<Rightarrow> string" where
  "run_detect_type files diff_content =
     (if files = [] then ''chore''
      else if all_new files then ''feat''
      else if all_test files then ''test''
      else if all_doc files then ''docs''
      else if all_config files then ''chore''
      else
        let diff_lower = py_lower diff_content
        in if has_keyword FIX_KEYWORDS diff_lower then ''fix''
           else if has_keyword PERF_KEYWORDS diff_lower then ''perf''
           else
             let added = added_count diff_lower;
                 removed = removed_count diff_lower
             in if removed > added \<and> removed > 5 then ''refactor'' else ''feat'')"

definition scope_dir :: "string list \<Rightarrow> string" where
  \<comment> \<open>the conditional expression appended to \<open>dirs\<close> in \<open>detect_scope\<close>, for the parts of a
      path with more than one part\<close>
  "scope_dir parts =
     (let roots = [''src'', ''lib'', ''app'', ''pkg'']
      in if parts ! 0 \<in> set roots \<and> length parts > 2 then parts ! 1
         else if parts ! 0 \<notin> set roots then parts ! 0
         else if length parts > 1 then parts ! 1 else [])"

definition scope_dirs :: "staged_file list \<Rightarrow> string list" where
  \<comment> \<open>the list \<open>dirs\<close>: root-level files add nothing\<close>
  "scope_dirs files =
     concat (map (\<lambda>f. let parts = path_parts (path f)
                       in if length parts > 1 then [scope_dir parts] else []) files)"

definition dir_counts :: "string list \<Rightarrow> (string \<times> int) list" where
  \<comment> \<open>the dictionary \<open>dir_counts\<close>, in insertion order\<close>
  "dir_counts dirs =
     foldl (\<lambda>dc d. if d \<noteq> []
                    then AList.update d ((case map_of dc d of None \<Rightarrow> 0 | Some n \<Rightarrow> n) + 1) dc
                    else dc)
       [] dirs"

definition run_detect_scope :: "staged_file list \<Rightarrow> string" where
  "run_detect_scope files =
     (if files = [] then []
      else
        let dirs = scope_dirs files
        in if dirs = [] \<or> list_all (\<lambda>d. d = []) dirs then []
           else case dir_counts dirs of
                  [] \<Rightarrow> []
                | item # others \<Rightarrow> fst (py_max_from snd item others))"

definition generate_subject :: "staged_file list \<Rightarrow> string \<Rightarrow> string" where
  "generate_subject files commit_type =
     (if length files = 1 then
        (let p = path (hd files); name = path_name p; st = status (hd files)
         in if st = ''A'' then ''add '' @ name
            else if st = ''D'' then ''remove '' @ name
            else ''update '' @ name)
      else
        (let file_count = int (length files)
         in if commit_type = ''docs'' then
              (let names = map (\<lambda>f. path_name (path f)) (take 3 files)
               in if length names \<le> 2 then ''update '' @ join '' and '' names
                  else ''update '' @ str_int file_count @ '' doc files'')
            else if commit_type = ''test'' then ''update '' @ str_int file_count @ '' test files''
            else
              (let added = count_where (\<lambda>f. status f = ''A'') files;
                   modified = count_where (\<lambda>f. status f = ''M'') files;
                   deleted = count_where (\<lambda>f. status f = ''D'') files;
                   parts1 = (if added \<noteq> 0 then [file_clause ''add'' added] else []);
                   parts2 = (if modified \<noteq> 0 then parts1 @ [file_clause ''update'' modified]
                             else parts1);
                   parts3 = (if deleted \<noteq> 0 then parts2 @ [file_clause ''remove'' deleted]
                             else parts2)
               in if parts3 \<noteq> [] then join '', '' parts3
                  else ''update '' @ str_int file_count @ '' files'')))"

section \<open>analyze.py: the patterns of type detection\<close>

text \<open>
  A pattern compiled with \<open>re.IGNORECASE\<close> matches a character of the text when the two
  agree in lower case; none of the patterns holds a character beyond ASCII, so this is
  the comparison of the lower-cased text with the lower-cased pattern.
\<close>

definition prefix_ci :: "string \<Rightarrow> string \<Rightarrow> bool" where
  \<comment> \<open>\<open>^tok\<close> under \<open>re.IGNORECASE\<close>\<close>
  "prefix_ci tok s \<longleftrightarrow> prefix (py_lower tok) (py_lower s)"

definition ends_ci :: "string \<Rightarrow> string \<Rightarrow> bool" where
  \<comment> \<open>\<open>tok$\<close> under \<open>re.IGNORECASE\<close>, found by \<open>search\<close>: the dollar matches at the end of
      the string and before a line feed that ends the string\<close>
  "ends_ci tok s \<longleftrightarrow>
     suffix (py_lower tok) (py_lower s) \<or> suffix (py_lower tok @ [LF]) (py_lower s)"

definition analyze_TEST_PATTERNS :: "string list" where
  "analyze_TEST_PATTERNS =
     [''test_'', ''_test.'', ''.test.'', ''.spec.'', ''/tests/'', ''/test/'', ''/__tests__/'']"

definition TEST_PATTERNS_search :: "string \<Rightarrow> bool" where
  "TEST_PATTERNS_search p \<longleftrightarrow>
     list_ex (\<lambda>tok. sublist (py_lower tok) (py_lower p)) analyze_TEST_PATTERNS"

definition DOC_PATTERNS_search :: "string \<Rightarrow> bool" where
  "DOC_PATTERNS_search p \<longleftrightarrow>
     ends_ci ''.md'' p \<or> prefix_ci ''README'' p \<or> prefix_ci ''docs/'' p
     \<or> prefix_ci ''CHANGELOG'' p \<or> prefix_ci ''LICENSE'' p \<or> prefix_ci ''CONTRIBUTING'' p"

datatype anchored = Whole string | Start string

definition CHORE_PATTERNS :: "anchored list" where
  \<comment> \<open>\<open>Whole t\<close> is the alternative \<open>^t$\<close>, \<open>Start t\<close> the alternative \<open>^t\<close>\<close>
  "CHORE_PATTERNS =
     [Whole ''.gitignore'', Whole ''Makefile'', Whole ''Dockerfile'', Start ''docker-compose'',
      Start ''.github/'', Start ''.circleci/'', Start ''.gitlab-ci'', Whole ''Jenkinsfile'',
      Whole ''package.json'', Whole ''package-lock.json'', Whole ''yarn.lock'', Whole ''Gemfile'',
      Whole ''Gemfile.lock'', Start ''.eslintrc'', Start ''.prettierrc'', Start ''tsconfig'',
      Whole ''setup.cfg'', Whole ''setup.py'', Whole ''pyproject.toml'', Whole ''Cargo.toml'',
      Whole ''Cargo.lock'', Whole ''go.mod'', Whole ''go.sum'', Start ''.env'']"

fun anchored_match :: "string \<Rightarrow> anchored \<Rightarrow> bool" where
  "anchored_match p (Whole t) \<longleftrightarrow> p = t \<or> p = t @ [LF]"
| "anchored_match p (Start t) \<longleftrightarrow> prefix t p"

definition CHORE_PATTERNS_search :: "string \<Rightarrow> bool" where
  "CHORE_PATTERNS_search p \<longleftrightarrow> list_ex (anchored_match p) CHORE_PATTERNS"

definition bug_keywords :: "string list" where
  "bug_keywords =
     [''fix'', ''bug'', ''error'', ''issue'', ''patch'', ''crash'', ''fault'', ''defect'',
      ''broken'', ''wrong'', ''incorrect'']"

definition word_boundary :: "string \<Rightarrow> string \<Rightarrow> bool" where
  \<comment> \<open>\<open>\<bsol>b\<close> between the text on the left of a position and the text on its right: a word character
      on exactly one side\<close>
  "word_boundary left right \<longleftrightarrow>
     (left \<noteq> [] \<and> is_word_char (last left)) \<noteq> (right \<noteq> [] \<and> is_word_char (hd right))"

definition bug_keyword_at :: "string \<Rightarrow> string \<Rightarrow> bool" where
  \<comment> \<open>the pattern \<open>\<bsol>b(fix|bug|...)\<bsol>b\<close> matches at the position between the two texts\<close>
  "bug_keyword_at left right \<longleftrightarrow>
     word_boundary left right
     \<and> list_ex (\<lambda>kw. prefix kw (py_lower right)
                     \<and> word_boundary (left @ take (length kw) right)
                          (drop (length kw) right))
         bug_keywords"

definition BUG_KEYWORDS_search :: "string \<Rightarrow> bool" where
  \<comment> \<open>\<open>BUG_KEYWORDS.search(text)\<close>: a match at some position\<close>
  "BUG_KEYWORDS_search text \<longleftrightarrow>
     list_ex (\<lambda>i. bug_keyword_at (take i text) (drop i text)) [0..<Suc (length text)]"

definition func_pattern_match :: "string \<Rightarrow> bool" where
  \<comment> \<open>\<open>func_pattern.match(l)\<close> for \<open>^\<bsol>s*(def |function |class |const \<bsol>w+ = |export )\<close>\<close>
  "func_pattern_match l \<longleftrightarrow>
     (let r = dropWhile is_space l
      in prefix ''def '' r \<or> prefix ''function '' r \<or> prefix ''class '' r
         \<or> (prefix ''const '' r
             \<and> takeWhile is_word_char (drop 6 r) \<noteq> []
             \<and> prefix '' = '' (dropWhile is_word_char (drop 6 r)))
         \<or> prefix ''export '' r)"

section \<open>analyze.py: type detection by votes\<close>

datatype py_error = ValueError

definition initial_signals :: "(string \<times> int) list" where
  \<comment> \<open>the dictionary \<open>signals\<close>, in insertion order\<close>
  "initial_signals =
     [(''feat'', 0), (''fix'', 0), (''test'', 0), (''docs'', 0), (''chore'', 0), (''style'', 0),
      (''refactor'', 0)]"

definition incr :: "string \<Rightarrow> (string \<times> int) list \<Rightarrow> (string \<times> int) list" where
  \<comment> \<open>\<open>signals[key] += 1\<close> for a key of the dictionary: the key keeps its place. Every key
      the loop increments is one of the seven of \<open>initial_signals\<close>, which are never removed\<close>
  "incr key signals = map (\<lambda>(k, v). if k = key then (k, v + 1) else (k, v)) signals"

definition vote_step :: "(string \<times> int) list \<Rightarrow> file_change \<Rightarrow> (string \<times> int) list" where
  \<comment> \<open>the body of the loop over the files\<close>
  "vote_step signals f =
     (let p = new_path f
      in if TEST_PATTERNS_search p then incr ''test'' signals
         else if DOC_PATTERNS_search p then incr ''docs'' signals
         else if CHORE_PATTERNS_search p then incr ''chore'' signals
         else if is_new f then incr ''feat'' signals
         else
           let added_text = join [LF] (added_lines f)
           in if BUG_KEYWORDS_search added_text then incr ''fix'' signals
              else if is_style_only f then incr ''style'' signals
              else if is_refactor f then incr ''refactor'' signals
              else if list_ex func_pattern_match (added_lines f) then incr ''feat'' signals
              else incr ''chore'' signals)"

definition analyze_detect_type :: "file_change list \<Rightarrow> py_error + string" where
  \<comment> \<open>\<open>max\<close> raises \<open>ValueError\<close> on an empty dictionary\<close>
  "analyze_detect_type files =
     (if files = [] then Inr ''chore''
      else
        case foldl vote_step initial_signals files of
          [] \<Rightarrow> Inl ValueError
        | item # others \<Rightarrow>
            let best = py_max_from snd item others
            in if snd best = 0 then Inr ''chore'' else Inr (fst best))"

text \<open>
  The vote in the words of the specification: the rules in their priority order, each a
  predicate on a file with the type it votes for; the type of a file is that of the
  first rule that holds, the votes of a type are the files of that type, and the types
  are taken in the fixed enumeration order.
\<close>

definition type_rules :: "((file_change \<Rightarrow> bool) \<times> string) list" where
  "type_rules =
     [(\<lambda>f. TEST_PATTERNS_search (new_path f), ''test''),
      (\<lambda>f. DOC_PATTERNS_search (new_path f), ''docs''),
      (\<lambda>f. CHORE_PATTERNS_search (new_path f), ''chore''),
      (is_new, ''feat''),
      (\<lambda>f. BUG_KEYWORDS_search (join [LF] (added_lines f)), ''fix''),
      (is_style_only, ''style''),
      (is_refactor, ''refactor''),
      (\<lambda>f. list_ex func_pattern_match (added_lines f), ''feat''),
      (\<lambda>f. True, ''chore'')]"

definition first_rule :: "file_change \<Rightarrow> string" where
  "first_rule f = (case find (\<lambda>(holds, t). holds f) type_rules of
                     Some (holds, t) \<Rightarrow> t
                   | None \<Rightarrow> ''chore'')"

definition votes :: "file_change list \<Rightarrow> string \<Rightarrow> int" where
  "votes files t = count_where (\<lambda>f. first_rule f = t) files"

definition type_order :: "string list" where
  "type_order =
     [''feat'', ''fix'', ''test'', ''docs'', ''chore'', ''style'', ''refactor'', ''perf'']"

section \<open>Properties of the diff parser\<close>

lemma parse_loop_skip:
  "\<forall>l\<in>set ls. match_header l = None \<Longrightarrow> parse_loop [] (ls @ rest) = parse_loop [] rest"
  by (induction ls) simp_all

text \<open>
  C9: \<open>parse_diff\<close> has no failing branch (no step of the source can raise on a string).
  On an input none of whose lines matches the header pattern it returns the empty
  sequence, and the lines before the first header do not change the result.
\<close>

theorem parse_diff_no_header:
  "((\<forall>l\<in>set (splitlines raw). match_header l = None) \<longrightarrow> parse_diff raw = [])
   \<and> ((\<forall>l\<in>set pre. match_header l = None) \<longrightarrow>
        parse_loop [] (pre @ rest) = parse_loop [] rest)"
  using parse_loop_skip [of "splitlines raw" "[]"] parse_loop_skip [of pre rest]
  by (simp add: parse_diff_def)

theorem parse_diff_no_header_witness:
  "parse_diff ''index 1..2\<newline>+added\<newline>-removed'' = []
   \<and> parse_loop [] ([''junk'', ''+more''] @ [''diff --git a/x b/y'', ''+z''])
       = parse_loop [] [''diff --git a/x b/y'', ''+z'']"
proof -
  have raw: "\<forall>l\<in>set (splitlines ''index 1..2\<newline>+added\<newline>-removed''). match_header l = None"
    by (simp add: splitlines_def is_linebreak_def match_header_def)
  have pre: "\<forall>l\<in>set [''junk'', ''+more'']. match_header l = None"
    by (simp add: match_header_def)
  note inst = parse_diff_no_header [of "''index 1..2\<newline>+added\<newline>-removed''"
      "[''junk'', ''+more'']" "[''diff --git a/x b/y'', ''+z'']"]
  have "parse_diff ''index 1..2\<newline>+added\<newline>-removed'' = []"
    using inst [THEN conjunct1] raw by (rule mp)
  moreover have "parse_loop [] ([''junk'', ''+more''] @ [''diff --git a/x b/y'', ''+z''])
       = parse_loop [] [''diff --git a/x b/y'', ''+z'']"
    using inst [THEN conjunct2] pre by (rule mp)
  ultimately show ?thesis by (rule conjI)
qed

lemma parse_loop_snoc:
  "parse_loop (fs @ [c]) ls = fs @ parse_loop [c] ls"
proof (induction ls arbitrary: fs c)
  case Nil
  show ?case by simp
next
  case (Cons l ls)
  show ?case
  proof (cases "match_header l")
    case None
    then show ?thesis
      using Cons.IH [of fs "apply_line l c"] Cons.IH [of "[]" "apply_line l c"]
      by simp
  next
    case (Some p)
    obtain old new where p: "p = (old, new)" by (cases p)
    have "parse_loop ((fs @ [c]) @ [new_record old new]) ls
          = (fs @ [c]) @ parse_loop [new_record old new] ls"
      by (rule Cons.IH)
    moreover have "parse_loop ([c] @ [new_record old new]) ls
          = [c] @ parse_loop [new_record old new] ls"
      by (rule Cons.IH)
    ultimately show ?thesis using Some p by simp
  qed
qed

lemma mode_prefixes_differ:
  "prefix ''new file mode'' l \<Longrightarrow> \<not> prefix ''deleted file mode'' l"
  by (auto simp: prefix_def)

lemma apply_line_flags:
  "is_new (apply_line l c) = (is_new c \<or> prefix ''new file mode'' l)"
  "is_deleted (apply_line l c) = (is_deleted c \<or> prefix ''deleted file mode'' l)"
  using mode_prefixes_differ [of l] by (auto simp: apply_line_def)

lemma parse_loop_flags:
  "map (\<lambda>f. (is_new f, is_deleted f)) (parse_loop [] ls)
     = map (\<lambda>b. (has_new_mode b, has_deleted_mode b)) (header_blocks ls)
   \<and> (\<forall>c. map (\<lambda>f. (is_new f, is_deleted f)) (parse_loop [c] ls) =
          (is_new c \<or> has_new_mode (takeWhile (\<lambda>l. match_header l = None) ls),
           is_deleted c \<or> has_deleted_mode (takeWhile (\<lambda>l. match_header l = None) ls))
          # map (\<lambda>b. (has_new_mode b, has_deleted_mode b)) (header_blocks ls))"
proof (induction ls)
  case Nil
  show ?case by (simp add: has_new_mode_def has_deleted_mode_def)
next
  case (Cons l ls)
  show ?case
  proof (cases "match_header l")
    case None
    then show ?thesis using Cons.IH
      by (auto simp: apply_line_flags has_new_mode_def has_deleted_mode_def)
  next
    case (Some p)
    obtain old new where p: "p = (old, new)" by (cases p)
    have "parse_loop ([c] @ [new_record old new]) ls = [c] @ parse_loop [new_record old new] ls"
      for c
      by (rule parse_loop_snoc)
    then show ?thesis using Some p Cons.IH
      by (simp add: new_record_def has_new_mode_def has_deleted_mode_def)
  qed
qed

text \<open>
  C8 as stated fails: a header block that holds both a \<open>new file mode\<close> line and a
  \<open>deleted file mode\<close> line gives a record with both flags set.
\<close>

theorem parse_diff_both_flags:
  "parse_diff ''diff --git a/x b/x\<newline>new file mode 100644\<newline>deleted file mode 100644''
   = [\<lparr>old_path = ''x'', new_path = ''x'', is_new = True, is_deleted = True,
       added_lines = [], deleted_lines = []\<rparr>]"
  by (simp add: parse_diff_def splitlines_def is_linebreak_def match_header_def
      new_record_def apply_line_def)

text \<open>
  C8, amended: for every input string, the record of a header block has \<open>is_new\<close> set
  exactly when the block holds a line starting with \<open>new file mode\<close>, and \<open>is_deleted\<close>
  set exactly when it holds a line starting with \<open>deleted file mode\<close>; so no record has
  both flags set when no block holds both kinds of line, and a block with neither gives
  a record with both flags false.
\<close>

theorem parse_diff_flags:
  "map (\<lambda>f. (is_new f, is_deleted f)) (parse_diff raw)
     = map (\<lambda>b. (has_new_mode b, has_deleted_mode b)) (header_blocks (splitlines raw))
   \<and> ((\<forall>b\<in>set (header_blocks (splitlines raw)). \<not> (has_new_mode b \<and> has_deleted_mode b))
        \<longrightarrow> (\<forall>f\<in>set (parse_diff raw). \<not> (is_new f \<and> is_deleted f)))"
proof -
  let ?fl = "\<lambda>f. (is_new f, is_deleted f)"
  let ?bl = "\<lambda>b. (has_new_mode b, has_deleted_mode b)"
  have eq: "map ?fl (parse_diff raw) = map ?bl (header_blocks (splitlines raw))"
    using parse_loop_flags [of "splitlines raw"] by (simp add: parse_diff_def)
  have "\<not> (is_new f \<and> is_deleted f)"
    if ok: "\<forall>b\<in>set (header_blocks (splitlines raw)). \<not> (has_new_mode b \<and> has_deleted_mode b)"
      and f: "f \<in> set (parse_diff raw)" for f
  proof -
    from f have "?fl f \<in> set (map ?fl (parse_diff raw))" by simp
    with eq have "?fl f \<in> set (map ?bl (header_blocks (splitlines raw)))" by simp
    then obtain b where "b \<in> set (header_blocks (splitlines raw))" and "?fl f = ?bl b"
      by auto
    with ok show ?thesis by auto
  qed
  with eq show ?thesis by blast
qed

theorem parse_diff_flags_witness:
  "list_all (\<lambda>f. \<not> (is_new f \<and> is_deleted f))
     (parse_diff
       ''diff --git a/x b/x\<newline>new file mode 100644\<newline>+one\<newline>diff --git a/y b/y\<newline>deleted file mode 100644\<newline>-two\<newline>diff --git a/z b/z\<newline>+three'')"
proof -
  let ?raw = "''diff --git a/x b/x\<newline>new file mode 100644\<newline>+one\<newline>diff --git a/y b/y\<newline>deleted file mode 100644\<newline>-two\<newline>diff --git a/z b/z\<newline>+three''"
  have "\<forall>b\<in>set (header_blocks (splitlines ?raw)). \<not> (has_new_mode b \<and> has_deleted_mode b)"
    by (simp add: splitlines_def is_linebreak_def match_header_def
        has_new_mode_def has_deleted_mode_def)
  moreover have "(\<forall>b\<in>set (header_blocks (splitlines ?raw)).
            \<not> (has_new_mode b \<and> has_deleted_mode b))
        \<longrightarrow> (\<forall>f\<in>set (parse_diff ?raw). \<not> (is_new f \<and> is_deleted f))"
    using parse_diff_flags [of ?raw] by (rule conjunct2)
  ultimately have "\<forall>f\<in>set (parse_diff ?raw). \<not> (is_new f \<and> is_deleted f)"
    by (rule rev_mp)
  then show ?thesis unfolding list_all_iff .
qed

section \<open>The style-only predicate\<close>

lemma lines_agree_iff:
  "lines_agree ps \<longleftrightarrow> (\<forall>p\<in>set ps. normalize_ws (fst p) = normalize_ws (snd p))"
  by (induction ps rule: lines_agree.induct) auto

lemma all_zip_nth:
  "(\<forall>p\<in>set (zip xs ys). P (fst p) (snd p))
     \<longleftrightarrow> (\<forall>i < min (length xs) (length ys). P (xs ! i) (ys ! i))"
  by (auto simp: set_zip)

text \<open>
  C5: the style-only predicate holds exactly when both line lists are non-empty, their
  lengths differ by at most \<open>max(1, floor(addedCount / 3))\<close>, and at every index below
  the shorter length the added and the deleted line are equal once all whitespace
  characters are removed (\<open>normalize_ws\<close> keeps exactly the characters that are not
  whitespace). The comparison is by position.
\<close>

theorem is_style_only_iff:
  "is_style_only f \<longleftrightarrow>
     added_lines f \<noteq> [] \<and> deleted_lines f \<noteq> []
     \<and> \<bar>int (length (added_lines f)) - int (length (deleted_lines f))\<bar>
          \<le> max 1 (int (length (added_lines f)) div 3)
     \<and> (\<forall>i < min (length (added_lines f)) (length (deleted_lines f)).
           normalize_ws (added_lines f ! i) = normalize_ws (deleted_lines f ! i))"
proof -
  have "lines_agree (zip (added_lines f) (deleted_lines f)) \<longleftrightarrow>
        (\<forall>i < min (length (added_lines f)) (length (deleted_lines f)).
           normalize_ws (added_lines f ! i) = normalize_ws (deleted_lines f ! i))"
    unfolding lines_agree_iff
    by (rule all_zip_nth [of "added_lines f" "deleted_lines f"
          "\<lambda>a d. normalize_ws a = normalize_ws d"])
  moreover define n where
    "n = \<bar>int (length (added_lines f)) - int (length (deleted_lines f))\<bar>"
  moreover define m where "m = max 1 (int (length (added_lines f)) div 3)"
  ultimately show ?thesis
    unfolding is_style_only_def by auto
qed

theorem is_style_only_iff_witness:
  "is_style_only
     \<lparr>old_path = ''a.py'', new_path = ''a.py'', is_new = False, is_deleted = False,
      added_lines = [''x  = 1'', ''y=2''], deleted_lines = [''x = 1'', '' y = 2'', ''z'']\<rparr>
   \<and> \<not> is_style_only
     \<lparr>old_path = ''a.py'', new_path = ''a.py'', is_new = False, is_deleted = False,
      added_lines = [''y=2'', ''x  = 1''], deleted_lines = [''x = 1'', '' y = 2'', ''z'']\<rparr>"
proof -
  let ?f = "\<lparr>old_path = ''a.py'', new_path = ''a.py'', is_new = False, is_deleted = False,
      added_lines = [''x  = 1'', ''y=2''], deleted_lines = [''x = 1'', '' y = 2'', ''z'']\<rparr>"
  let ?g = "\<lparr>old_path = ''a.py'', new_path = ''a.py'', is_new = False, is_deleted = False,
      added_lines = [''y=2'', ''x  = 1''], deleted_lines = [''x = 1'', '' y = 2'', ''z'']\<rparr>"
  have "\<forall>i < min (length (added_lines ?f)) (length (deleted_lines ?f)).
           normalize_ws (added_lines ?f ! i) = normalize_ws (deleted_lines ?f ! i)"
    by (simp add: less_Suc_eq normalize_ws_def is_space_def numeral_2_eq_2 all_conj_distrib)
  then have "is_style_only ?f"
    using is_style_only_iff [of ?f] by simp
  moreover have "\<not> (\<forall>i < min (length (added_lines ?g)) (length (deleted_lines ?g)).
           normalize_ws (added_lines ?g ! i) = normalize_ws (deleted_lines ?g ! i))"
    by (simp add: normalize_ws_def is_space_def exI [of _ 0])
  then have "\<not> is_style_only ?g"
    using is_style_only_iff [of ?g] by simp
  ultimately show ?thesis by (rule conjI)
qed

section \<open>Scope detection on line content\<close>

lemma split_on_nonempty: "split_on c s \<noteq> []"
  by (induction s) (auto split: list.splits)

lemma split_on_single: "length (split_on c s) = Suc 0 \<longleftrightarrow> c \<notin> set s"
  using split_on_nonempty [of c]
  by (induction s) (auto split: list.splits)

lemma hd_split_on: "hd (split_on c s) = takeWhile (\<lambda>x. x \<noteq> c) s"
  using split_on_nonempty [of c]
  by (induction s) (auto split: list.splits)

lemma takeWhile_absent: "c \<notin> set s \<Longrightarrow> takeWhile (\<lambda>x. x \<noteq> c) s = s"
  by (induction s) auto

lemma py_lower_no_upper: "\<forall>c\<in>set (py_lower s). \<not> is_upper c"
  unfolding py_lower_def lower_char_def is_upper_def Let_def
  by auto

lemma change_counts_fold_same:
  "\<forall>f\<in>set files. new_path f = p \<Longrightarrow> d = [] \<or> (\<exists>n. d = [(p, n)])
    \<Longrightarrow> files \<noteq> [] \<or> d \<noteq> [] \<Longrightarrow>
    \<exists>n. foldl (\<lambda>d f. AList.update (new_path f)
                     (int (length (added_lines f)) + int (length (deleted_lines f))) d)
           d files = [(p, n)]"
proof (induction files arbitrary: d)
  case Nil
  then show ?case by auto
next
  case (Cons f files)
  let ?d = "AList.update (new_path f)
              (int (length (added_lines f)) + int (length (deleted_lines f))) d"
  from Cons.prems have "\<exists>n. ?d = [(p, n)]" by auto
  with Cons.IH [of ?d] Cons.prems show ?case by auto
qed

lemma change_counts_same_path:
  assumes "files \<noteq> []" "\<forall>f\<in>set files. new_path f = p"
  shows "\<exists>n. change_counts files = [(p, n)]"
  unfolding change_counts_def
  using change_counts_fold_same [OF assms(2), of "[]"] assms(1) by simp

lemma detect_scope_single:
  "change_counts files = [(p, n)] \<Longrightarrow> files \<noteq> [] \<Longrightarrow> analyze_detect_scope files =
     (if CHR ''/'' \<in> set p then py_lower (takeWhile (\<lambda>c. c \<noteq> CHR ''/'') p)
      else py_lower (fst (splitext p)))"
  using split_on_nonempty [of "CHR ''/''" p]
  by (auto simp: analyze_detect_scope_def Let_def split_on_single hd_split_on takeWhile_absent)

text \<open>
  C10: two or more records that all share one \<open>newPath\<close> leave a single entry in the
  per-path change counts, so the line-content scope detector takes its single-file
  branch: the scope is that of one file with that path, the first path segment in lower
  case, or for a root-level path the filename without its extension in lower case.
\<close>

theorem same_path_scope:
  assumes "2 \<le> length files" and "\<forall>f\<in>set files. new_path f = p" and "new_path g = p"
  shows "length (change_counts files) = 1
         \<and> analyze_detect_scope files = analyze_detect_scope [g]
         \<and> analyze_detect_scope files =
             (if CHR ''/'' \<in> set p then py_lower (takeWhile (\<lambda>c. c \<noteq> CHR ''/'') p)
              else py_lower (fst (splitext p)))"
proof -
  from assms(1) have ne: "files \<noteq> []" by auto
  from change_counts_same_path [OF ne assms(2)]
  obtain n where n: "change_counts files = [(p, n)]" ..
  have "\<exists>m. change_counts [g] = [(p, m)]"
    using assms(3) by (simp add: change_counts_def)
  then obtain m where m: "change_counts [g] = [(p, m)]" ..
  show ?thesis
    using detect_scope_single [OF n ne] detect_scope_single [OF m] n by simp
qed

theorem same_path_scope_witness:
  "analyze_detect_scope
     [\<lparr>old_path = ''Src/a.py'', new_path = ''Src/a.py'', is_new = False, is_deleted = False,
       added_lines = [''x''], deleted_lines = []\<rparr>,
      \<lparr>old_path = ''b.py'', new_path = ''Src/a.py'', is_new = False, is_deleted = False,
       added_lines = [''y'', ''z''], deleted_lines = [''w'']\<rparr>] = ''src''"
proof -
  let ?g = "\<lparr>old_path = ''Src/a.py'', new_path = ''Src/a.py'', is_new = False,
       is_deleted = False, added_lines = [''x''], deleted_lines = []\<rparr>"
  let ?h = "\<lparr>old_path = ''b.py'', new_path = ''Src/a.py'', is_new = False,
       is_deleted = False, added_lines = [''y'', ''z''], deleted_lines = [''w'']\<rparr>"
  have len: "2 \<le> length [?g, ?h]" by simp
  have same: "\<forall>f\<in>set [?g, ?h]. new_path f = ''Src/a.py''" by simp
  have g: "new_path ?g = ''Src/a.py''" by simp
  note inst = same_path_scope [OF len same g]
  have "analyze_detect_scope [?g, ?h] =
      (if CHR ''/'' \<in> set ''Src/a.py''
       then py_lower (takeWhile (\<lambda>c. c \<noteq> CHR ''/'') ''Src/a.py'')
       else py_lower (fst (splitext ''Src/a.py'')))"
    by (rule inst [THEN conjunct2, THEN conjunct2])
  then show ?thesis
    by (simp add: py_lower_def lower_char_def is_upper_def char_of_def bit_0)
qed

section \<open>The subject of several files\<close>

lemma count_modified:
  "\<forall>f\<in>set files. \<not> (is_new f \<and> is_deleted f) \<Longrightarrow>
   int (length files) - count_where is_new files - count_where is_deleted files
     = count_where (\<lambda>f. \<not> is_new f \<and> \<not> is_deleted f) files"
  unfolding count_where_def by (induction files) auto

lemma clause_example_analyze:
  "clause_list [(''add'', 2), (''remove'', 1), (''update'', 3)]
     = ''add 2 files, remove 1 file, update 3 files''"
  by code_simp

lemma clause_example_run:
  "clause_list [(''add'', 2), (''update'', 3), (''remove'', 1)]
     = ''add 2 files, update 3 files, remove 1 file''"
  by code_simp

lemma detect_summary_multi:
  assumes "2 \<le> length files" and "\<forall>f\<in>set files. \<not> (is_new f \<and> is_deleted f)"
  shows "detect_summary files t =
     clause_list [(''add'', count_where is_new files), (''remove'', count_where is_deleted files),
       (''update'', count_where (\<lambda>f. \<not> is_new f \<and> \<not> is_deleted f) files)]"
proof -
  define a where "a = count_where is_new files"
  define d where "d = count_where is_deleted files"
  define m where "m = count_where (\<lambda>f. \<not> is_new f \<and> \<not> is_deleted f) files"
  have m: "int (length files) - a - d = m"
    unfolding a_def d_def m_def by (rule count_modified [OF assms(2)])
  have "a \<noteq> 0 \<or> d \<noteq> 0 \<or> m \<noteq> 0" using m assms(1) by auto
  moreover have "files \<noteq> []" "length files \<noteq> 1" using assms(1) by auto
  ultimately show ?thesis
    unfolding detect_summary_def clause_list_def Let_def a_def [symmetric] d_def [symmetric]
    by (auto simp: m m_def [symmetric])
qed

lemma generate_subject_multi:
  assumes "2 \<le> length files" and "t \<noteq> ''docs''" and "t \<noteq> ''test''"
  shows "generate_subject files t =
     (if count_where (\<lambda>f. status f = ''A'') files = 0
         \<and> count_where (\<lambda>f. status f = ''M'') files = 0
         \<and> count_where (\<lambda>f. status f = ''D'') files = 0
      then ''update '' @ str_int (int (length files)) @ '' files''
      else clause_list [(''add'', count_where (\<lambda>f. status f = ''A'') files),
             (''update'', count_where (\<lambda>f. status f = ''M'') files),
             (''remove'', count_where (\<lambda>f. status f = ''D'') files)])"
proof -
  define a where "a = count_where (\<lambda>f. status f = ''A'') files"
  define m where "m = count_where (\<lambda>f. status f = ''M'') files"
  define d where "d = count_where (\<lambda>f. status f = ''D'') files"
  have "length files \<noteq> 1" using assms(1) by auto
  then show ?thesis using assms(2,3)
    unfolding generate_subject_def clause_list_def Let_def a_def [symmetric] d_def [symmetric]
      m_def [symmetric]
    by auto
qed

text \<open>
  C6 as stated fails for the status-based generator of \<open>run.py\<close>: its clauses come in
  the order add, update, remove.
\<close>

theorem generate_subject_order:
  "generate_subject
     [\<lparr>status = ''A'', path = ''a.py''\<rparr>, \<lparr>status = ''A'', path = ''b.py''\<rparr>,
      \<lparr>status = ''D'', path = ''c.py''\<rparr>, \<lparr>status = ''M'', path = ''d.py''\<rparr>,
      \<lparr>status = ''M'', path = ''e.py''\<rparr>, \<lparr>status = ''M'', path = ''f.py''\<rparr>] ''feat''
   = ''add 2 files, update 3 files, remove 1 file''"
  by code_simp

text \<open>
  C6, amended: for two or more records none of which is both new and deleted, and for
  every type, \<open>detect_summary\<close> of \<open>analyze.py\<close> joins with a comma the clauses of the
  non-zero counts of new, deleted and modified files in the order add, remove, update:
  2 added, 1 deleted and 3 modified files give \<open>add 2 files, remove 1 file, update 3 files\<close>.
  For two or more staged files and a type other than docs and test, \<open>generate_subject\<close>
  of \<open>run.py\<close> joins the clauses of the non-zero counts of the statuses A, M and D in
  the order add, update, remove (and falls back to \<open>update N files\<close> when all three are
  zero): the same counts give \<open>add 2 files, update 3 files, remove 1 file\<close>.
\<close>

theorem multi_file_subject:
  "(2 \<le> length files \<and> (\<forall>f\<in>set files. \<not> (is_new f \<and> is_deleted f)) \<longrightarrow>
      detect_summary files t =
        clause_list [(''add'', count_where is_new files),
          (''remove'', count_where is_deleted files),
          (''update'', count_where (\<lambda>f. \<not> is_new f \<and> \<not> is_deleted f) files)]
      \<and> (count_where is_new files = 2 \<and> count_where is_deleted files = 1
           \<and> count_where (\<lambda>f. \<not> is_new f \<and> \<not> is_deleted f) files = 3 \<longrightarrow>
         detect_summary files t = ''add 2 files, remove 1 file, update 3 files''))
   \<and> (2 \<le> length staged \<and> t \<noteq> ''docs'' \<and> t \<noteq> ''test'' \<longrightarrow>
      generate_subject staged t =
        (if count_where (\<lambda>f. status f = ''A'') staged = 0
            \<and> count_where (\<lambda>f. status f = ''M'') staged = 0
            \<and> count_where (\<lambda>f. status f = ''D'') staged = 0
         then ''update '' @ str_int (int (length staged)) @ '' files''
         else clause_list [(''add'', count_where (\<lambda>f. status f = ''A'') staged),
                (''update'', count_where (\<lambda>f. status f = ''M'') staged),
                (''remove'', count_where (\<lambda>f. status f = ''D'') staged)])
      \<and> (count_where (\<lambda>f. status f = ''A'') staged = 2
           \<and> count_where (\<lambda>f. status f = ''M'') staged = 3
           \<and> count_where (\<lambda>f. status f = ''D'') staged = 1 \<longrightarrow>
         generate_subject staged t = ''add 2 files, update 3 files, remove 1 file''))"
proof (intro conjI impI)
  assume h: "2 \<le> length files \<and> (\<forall>f\<in>set files. \<not> (is_new f \<and> is_deleted f))"
  then show eq: "detect_summary files t =
        clause_list [(''add'', count_where is_new files),
          (''remove'', count_where is_deleted files),
          (''update'', count_where (\<lambda>f. \<not> is_new f \<and> \<not> is_deleted f) files)]"
    using detect_summary_multi [of files t] by blast
  assume "count_where is_new files = 2 \<and> count_where is_deleted files = 1
           \<and> count_where (\<lambda>f. \<not> is_new f \<and> \<not> is_deleted f) files = 3"
  then show "detect_summary files t = ''add 2 files, remove 1 file, update 3 files''"
    using eq clause_example_analyze by simp
next
  assume h: "2 \<le> length staged \<and> t \<noteq> ''docs'' \<and> t \<noteq> ''test''"
  then show eq: "generate_subject staged t =
        (if count_where (\<lambda>f. status f = ''A'') staged = 0
            \<and> count_where (\<lambda>f. status f = ''M'') staged = 0
            \<and> count_where (\<lambda>f. status f = ''D'') staged = 0
         then ''update '' @ str_int (int (length staged)) @ '' files''
         else clause_list [(''add'', count_where (\<lambda>f. status f = ''A'') staged),
                (''update'', count_where (\<lambda>f. status f = ''M'') staged),
                (''remove'', count_where (\<lambda>f. status f = ''D'') staged)])"
    using generate_subject_multi [of staged t] by blast
  assume "count_where (\<lambda>f. status f = ''A'') staged = 2
           \<and> count_where (\<lambda>f. status f = ''M'') staged = 3
           \<and> count_where (\<lambda>f. status f = ''D'') staged = 1"
  then show "generate_subject staged t = ''add 2 files, update 3 files, remove 1 file''"
    using eq clause_example_run by simp
qed

theorem multi_file_subject_witness:
  "detect_summary
     [\<lparr>old_path = ''a'', new_path = ''a'', is_new = True, is_deleted = False,
        added_lines = [''x''], deleted_lines = []\<rparr>,
      \<lparr>old_path = ''b'', new_path = ''b'', is_new = True, is_deleted = False,
        added_lines = [''x''], deleted_lines = []\<rparr>,
      \<lparr>old_path = ''c'', new_path = ''c'', is_new = False, is_deleted = True,
        added_lines = [], deleted_lines = [''x'']\<rparr>,
      \<lparr>old_path = ''d'', new_path = ''d'', is_new = False, is_deleted = False,
        added_lines = [''x''], deleted_lines = [''y'']\<rparr>,
      \<lparr>old_path = ''e'', new_path = ''e'', is_new = False, is_deleted = False,
        added_lines = [''x''], deleted_lines = [''y'']\<rparr>,
      \<lparr>old_path = ''f'', new_path = ''f'', is_new = False, is_deleted = False,
        added_lines = [''x''], deleted_lines = [''y'']\<rparr>] ''feat''
     = ''add 2 files, remove 1 file, update 3 files''
   \<and> generate_subject
     [\<lparr>status = ''M'', path = ''src/a''\<rparr>, \<lparr>status = ''A'', path = ''src/b''\<rparr>,
      \<lparr>status = ''M'', path = ''src/c''\<rparr>, \<lparr>status = ''D'', path = ''src/d''\<rparr>,
      \<lparr>status = ''A'', path = ''src/e''\<rparr>, \<lparr>status = ''M'', path = ''src/f''\<rparr>] ''fix''
     = ''add 2 files, update 3 files, remove 1 file''"
proof -
  let ?fs = "[\<lparr>old_path = ''a'', new_path = ''a'', is_new = True, is_deleted = False,
        added_lines = [''x''], deleted_lines = []\<rparr>,
      \<lparr>old_path = ''b'', new_path = ''b'', is_new = True, is_deleted = False,
        added_lines = [''x''], deleted_lines = []\<rparr>,
      \<lparr>old_path = ''c'', new_path = ''c'', is_new = False, is_deleted = True,
        added_lines = [], deleted_lines = [''x'']\<rparr>,
      \<lparr>old_path = ''d'', new_path = ''d'', is_new = False, is_deleted = False,
        added_lines = [''x''], deleted_lines = [''y'']\<rparr>,
      \<lparr>old_path = ''e'', new_path = ''e'', is_new = False, is_deleted = False,
        added_lines = [''x''], deleted_lines = [''y'']\<rparr>,
      \<lparr>old_path = ''f'', new_path = ''f'', is_new = False, is_deleted = False,
        added_lines = [''x''], deleted_lines = [''y'']\<rparr>]"
  let ?ss = "[\<lparr>status = ''M'', path = ''src/a''\<rparr>, \<lparr>status = ''A'', path = ''src/b''\<rparr>,
      \<lparr>status = ''M'', path = ''src/c''\<rparr>, \<lparr>status = ''D'', path = ''src/d''\<rparr>,
      \<lparr>status = ''A'', path = ''src/e''\<rparr>, \<lparr>status = ''M'', path = ''src/f''\<rparr>]"
  note inst = multi_file_subject [of ?fs "''fix''" ?ss]
  note inst' = multi_file_subject [of ?fs "''feat''" ?ss]
  have h1: "2 \<le> length ?fs \<and> (\<forall>f\<in>set ?fs. \<not> (is_new f \<and> is_deleted f))"
    by simp
  have c1: "count_where is_new ?fs = 2 \<and> count_where is_deleted ?fs = 1
           \<and> count_where (\<lambda>f. \<not> is_new f \<and> \<not> is_deleted f) ?fs = 3"
    by (simp add: count_where_def)
  have h2: "2 \<le> length ?ss \<and> ''fix'' \<noteq> ''docs'' \<and> ''fix'' \<noteq> ''test''"
    by simp
  have c2: "count_where (\<lambda>f. status f = ''A'') ?ss = 2
           \<and> count_where (\<lambda>f. status f = ''M'') ?ss = 3
           \<and> count_where (\<lambda>f. status f = ''D'') ?ss = 1"
    by (simp add: count_where_def)
  have "detect_summary ?fs ''feat'' = ''add 2 files, remove 1 file, update 3 files''"
    by (rule inst' [THEN conjunct1, THEN mp, OF h1, THEN conjunct2, THEN mp, OF c1])
  moreover have "generate_subject ?ss ''fix'' = ''add 2 files, update 3 files, remove 1 file''"
    by (rule inst [THEN conjunct2, THEN mp, OF h2, THEN conjunct2, THEN mp, OF c2])
  ultimately show ?thesis by (rule conjI)
qed

section \<open>The whole-diff type detector\<close>

text \<open>
  C2 as stated fails: on a diff with 6 removed and 5 added lines, none of which starts
  with \<open>--\<close> or \<open>++\<close>, the removed count exceeds the added count by 1 only, and the
  detector returns \<open>refactor\<close>.
\<close>

theorem refactor_rule_counterexample:
  "run_detect_type [\<lparr>status = ''M'', path = ''a.py''\<rparr>]
     ''diff --git a/a.py b/a.py\<newline>--- a/a.py\<newline>+++ b/a.py\<newline>@@ -1,6 +1,5 @@\<newline>-u\<newline>-v\<newline>-w\<newline>-x\<newline>-y\<newline>-z\<newline>+p\<newline>+q\<newline>+r\<newline>+s\<newline>+t''
     = ''refactor''
   \<and> removed_count (py_lower ''diff --git a/a.py b/a.py\<newline>--- a/a.py\<newline>+++ b/a.py\<newline>@@ -1,6 +1,5 @@\<newline>-u\<newline>-v\<newline>-w\<newline>-x\<newline>-y\<newline>-z\<newline>+p\<newline>+q\<newline>+r\<newline>+s\<newline>+t'') = 6
   \<and> added_count (py_lower ''diff --git a/a.py b/a.py\<newline>--- a/a.py\<newline>+++ b/a.py\<newline>@@ -1,6 +1,5 @@\<newline>-u\<newline>-v\<newline>-w\<newline>-x\<newline>-y\<newline>-z\<newline>+p\<newline>+q\<newline>+r\<newline>+s\<newline>+t'') = 5"
  by code_simp

lemma count_sub_Nil: "count_sub (LF # p) [] = 0"
  by (simp add: count_sub.simps)

lemma count_sub_other: "c \<noteq> LF \<Longrightarrow> count_sub (LF # p) (c # s) = count_sub (LF # p) s"
  by (subst count_sub.simps) simp

lemma count_sub_skip: "LF \<notin> set q \<Longrightarrow> count_sub (LF # p) (q @ s) = count_sub (LF # p) s"
  by (induction q) (auto simp: count_sub_other)

lemma count_sub_LF:
  assumes "LF \<notin> set p"
  shows "count_sub (LF # p) (LF # s) = (if prefix p s then 1 else 0) + count_sub (LF # p) s"
proof (cases "prefix p s")
  case True
  then obtain rest where s: "s = p @ rest" unfolding prefix_def by blast
  have "count_sub (LF # p) (LF # s) = 1 + count_sub (LF # p) rest"
    by (subst count_sub.simps) (simp add: s)
  moreover have "count_sub (LF # p) s = count_sub (LF # p) rest"
    unfolding s using assms by (rule count_sub_skip)
  ultimately show ?thesis using True by simp
next
  case False
  then show ?thesis by (subst count_sub.simps) simp
qed

lemma prefix_first_line:
  "LF \<notin> set p \<Longrightarrow> prefix p (takeWhile (\<lambda>x. x \<noteq> LF) s) \<longleftrightarrow> prefix p s"
proof (induction p arbitrary: s)
  case Nil
  show ?case by simp
next
  case (Cons a p)
  then show ?case by (cases s) auto
qed

lemma count_sub_lines:
  assumes "LF \<notin> set p"
  shows "count_sub (LF # p) s = count_where (prefix p) (tl (split_on LF s))"
proof (induction s)
  case Nil
  show ?case by (simp add: count_sub_Nil count_where_def)
next
  case (Cons c s)
  show ?case
  proof (cases "c = LF")
    case True
    have "count_where (prefix p) (split_on LF s)
        = (if prefix p s then 1 else 0) + count_where (prefix p) (tl (split_on LF s))"
      using split_on_nonempty [of LF s] hd_split_on [of LF s] prefix_first_line [OF assms, of s]
      by (cases "split_on LF s") (auto simp: count_where_def)
    then show ?thesis using True Cons count_sub_LF [OF assms, of s] by simp
  next
    case False
    then show ?thesis using Cons split_on_nonempty [of LF s]
      by (cases "split_on LF s") (simp_all add: count_sub_other)
  qed
qed

lemma count_where_minus:
  "(\<And>l. Q l \<Longrightarrow> P l) \<Longrightarrow>
   count_where P xs - count_where Q xs = count_where (\<lambda>l. P l \<and> \<not> Q l) xs"
  unfolding count_where_def by (induction xs) auto

lemma removed_count_lines: "removed_count text = marked_lines ''-'' ''---'' text"
proof -
  have "prefix ''-'' l" if "prefix ''---'' l" for l
    using that by (auto simp: prefix_def)
  then show ?thesis
    unfolding removed_count_def marked_lines_def
    by (simp add: count_sub_lines count_where_minus)
qed

lemma added_count_lines: "added_count text = marked_lines ''+'' ''+++'' text"
proof -
  have "prefix ''+'' l" if "prefix ''+++'' l" for l
    using that by (auto simp: prefix_def)
  then show ?thesis
    unfolding added_count_def marked_lines_def
    by (simp add: count_sub_lines count_where_minus)
qed

text \<open>
  C2, amended: when none of the earlier rules fires (all new, all test, all doc, all
  config, fix keyword, perf keyword), the whole-diff detector returns \<open>refactor\<close> exactly
  when its removed count is greater than its added count and greater than 5, and \<open>feat\<close>
  otherwise. The removed count is the number of lines of the lower-cased diff text,
  after its first line and with a line ending at each line feed, that start with \<open>-\<close>
  but not with \<open>---\<close>; the added count is the same with \<open>+\<close> and \<open>+++\<close>. So the first
  line is never counted, and neither is a removed line whose own text starts with
  \<open>--\<close> nor an added line whose own text starts with \<open>++\<close>.
\<close>

theorem refactor_rule:
  assumes "\<not> all_new files" and "\<not> all_test files" and "\<not> all_doc files"
    and "\<not> all_config files"
    and "\<not> has_keyword FIX_KEYWORDS (py_lower diff_content)"
    and "\<not> has_keyword PERF_KEYWORDS (py_lower diff_content)"
  shows "run_detect_type files diff_content =
     (if marked_lines ''-'' ''---'' (py_lower diff_content)
            > marked_lines ''+'' ''+++'' (py_lower diff_content)
          \<and> marked_lines ''-'' ''---'' (py_lower diff_content) > 5
      then ''refactor'' else ''feat'')"
proof -
  from assms(1) have "files \<noteq> []" by (auto simp: all_new_def)
  with assms show ?thesis
    by (simp add: run_detect_type_def Let_def removed_count_lines added_count_lines)
qed

theorem refactor_rule_witness:
  "run_detect_type [\<lparr>status = ''M'', path = ''a.py''\<rparr>]
     ''--- a/a.py\<newline>+++ b/a.py\<newline>-1\<newline>-2\<newline>-3\<newline>-4\<newline>-5\<newline>-6\<newline>-7\<newline>+8'' = ''refactor''
   \<and> run_detect_type [\<lparr>status = ''M'', path = ''a.py''\<rparr>]
     ''--- a/a.py\<newline>+++ b/a.py\<newline>-1\<newline>-2\<newline>-3\<newline>+4\<newline>+5'' = ''feat''
   \<and> run_detect_type [\<lparr>status = ''M'', path = ''a.sql''\<rparr>]
     ''@@ -1,6 +0,0 @@\<newline>--- c1\<newline>--- c2\<newline>--- c3\<newline>--- c4\<newline>--- c5\<newline>--- c6'' = ''feat''"
proof -
  let ?fs = "[\<lparr>status = ''M'', path = ''a.py''\<rparr>]"
  let ?gs = "[\<lparr>status = ''M'', path = ''a.sql''\<rparr>]"
  let ?d1 = "''--- a/a.py\<newline>+++ b/a.py\<newline>-1\<newline>-2\<newline>-3\<newline>-4\<newline>-5\<newline>-6\<newline>-7\<newline>+8''"
  let ?d2 = "''--- a/a.py\<newline>+++ b/a.py\<newline>-1\<newline>-2\<newline>-3\<newline>+4\<newline>+5''"
  let ?d3 = "''@@ -1,6 +0,0 @@\<newline>--- c1\<newline>--- c2\<newline>--- c3\<newline>--- c4\<newline>--- c5\<newline>--- c6''"
  have f1: "\<not> all_new ?fs" by code_simp
  have f2: "\<not> all_test ?fs" by code_simp
  have f3: "\<not> all_doc ?fs" by code_simp
  have f4: "\<not> all_config ?fs" by code_simp
  have g1: "\<not> all_new ?gs" by code_simp
  have g2: "\<not> all_test ?gs" by code_simp
  have g3: "\<not> all_doc ?gs" by code_simp
  have g4: "\<not> all_config ?gs" by code_simp
  have k1: "\<not> has_keyword FIX_KEYWORDS (py_lower ?d1)" by code_simp
  have p1: "\<not> has_keyword PERF_KEYWORDS (py_lower ?d1)" by code_simp
  have k2: "\<not> has_keyword FIX_KEYWORDS (py_lower ?d2)" by code_simp
  have p2: "\<not> has_keyword PERF_KEYWORDS (py_lower ?d2)" by code_simp
  have k3: "\<not> has_keyword FIX_KEYWORDS (py_lower ?d3)" by code_simp
  have p3: "\<not> has_keyword PERF_KEYWORDS (py_lower ?d3)" by code_simp
  have r1: "(if marked_lines ''-'' ''---'' (py_lower ?d1)
            > marked_lines ''+'' ''+++'' (py_lower ?d1)
          \<and> marked_lines ''-'' ''---'' (py_lower ?d1) > 5
      then ''refactor'' else ''feat'') = ''refactor''"
    by code_simp
  have r2: "(if marked_lines ''-'' ''---'' (py_lower ?d2)
            > marked_lines ''+'' ''+++'' (py_lower ?d2)
          \<and> marked_lines ''-'' ''---'' (py_lower ?d2) > 5
      then ''refactor'' else ''feat'') = ''feat''"
    by code_simp
  have r3: "(if marked_lines ''-'' ''---'' (py_lower ?d3)
            > marked_lines ''+'' ''+++'' (py_lower ?d3)
          \<and> marked_lines ''-'' ''---'' (py_lower ?d3) > 5
      then ''refactor'' else ''feat'') = ''feat''"
    by code_simp
  have "run_detect_type ?fs ?d1 = ''refactor''"
    using refactor_rule [OF f1 f2 f3 f4 k1 p1] r1 by (rule trans)
  moreover have "run_detect_type ?fs ?d2 = ''feat''"
    using refactor_rule [OF f1 f2 f3 f4 k2 p2] r2 by (rule trans)
  moreover have "run_detect_type ?gs ?d3 = ''feat''"
    using refactor_rule [OF g1 g2 g3 g4 k3 p3] r3 by (rule trans)
  ultimately show ?thesis by (intro conjI)
qed

section \<open>The bug-keyword predicates\<close>

lemma is_word_lower: "is_word_char (lower_char c) = is_word_char c"
  unfolding lower_char_def is_upper_def is_word_char_def Let_def
  by auto

lemma bug_keywords_words:
  "kw \<in> set bug_keywords \<Longrightarrow> kw \<noteq> [] \<and> (\<forall>c\<in>set kw. is_word_char c)"
  by (auto simp: bug_keywords_def is_word_char_def)

lemma lowered_keyword_word:
  assumes "py_lower w \<in> set bug_keywords"
  shows "w \<noteq> [] \<and> is_word_char (hd w) \<and> is_word_char (last w)"
proof -
  from bug_keywords_words [OF assms]
  have ne: "py_lower w \<noteq> []" and all: "\<forall>c\<in>set (py_lower w). is_word_char c" by auto
  from ne have w: "w \<noteq> []" by (auto simp: py_lower_def)
  from all have "\<forall>c\<in>set w. is_word_char c"
    by (auto simp: py_lower_def is_word_lower)
  with w show ?thesis by auto
qed

lemma bug_keyword_at_iff:
  "bug_keyword_at l r \<longleftrightarrow>
     (\<exists>w post. r = w @ post \<and> py_lower w \<in> set bug_keywords
        \<and> (l = [] \<or> \<not> is_word_char (last l)) \<and> (post = [] \<or> \<not> is_word_char (hd post)))"
proof
  assume "bug_keyword_at l r"
  then obtain kw where b1: "word_boundary l r" and kw: "kw \<in> set bug_keywords"
    and pre: "prefix kw (py_lower r)"
    and b2: "word_boundary (l @ take (length kw) r) (drop (length kw) r)"
    unfolding bug_keyword_at_def list_ex_iff by blast
  define w where "w = take (length kw) r"
  define post where "post = drop (length kw) r"
  have r: "r = w @ post" by (simp add: w_def post_def)
  from pre obtain z where "py_lower r = kw @ z" unfolding prefix_def by blast
  then have "take (length kw) (py_lower r) = kw" by simp
  then have low: "py_lower w = kw" by (simp add: w_def py_lower_def take_map)
  with kw have in_kw: "py_lower w \<in> set bug_keywords" by simp
  from lowered_keyword_word [OF in_kw]
  have w: "w \<noteq> []" "is_word_char (hd w)" "is_word_char (last w)" by simp_all
  from b1 w(1,2) have left: "l = [] \<or> \<not> is_word_char (last l)"
    unfolding word_boundary_def r by simp
  from b2 w(1,3) have right: "post = [] \<or> \<not> is_word_char (hd post)"
    unfolding word_boundary_def w_def [symmetric] post_def [symmetric] by simp
  from r in_kw left right
  show "\<exists>w post. r = w @ post \<and> py_lower w \<in> set bug_keywords
        \<and> (l = [] \<or> \<not> is_word_char (last l)) \<and> (post = [] \<or> \<not> is_word_char (hd post))"
    by blast
next
  assume "\<exists>w post. r = w @ post \<and> py_lower w \<in> set bug_keywords
        \<and> (l = [] \<or> \<not> is_word_char (last l)) \<and> (post = [] \<or> \<not> is_word_char (hd post))"
  then obtain w post where r: "r = w @ post" and kw: "py_lower w \<in> set bug_keywords"
    and left: "l = [] \<or> \<not> is_word_char (last l)"
    and right: "post = [] \<or> \<not> is_word_char (hd post)" by blast
  from lowered_keyword_word [OF kw]
  have w: "w \<noteq> []" "is_word_char (hd w)" "is_word_char (last w)" by simp_all
  have len: "length (py_lower w) = length w" by (simp add: py_lower_def)
  have p: "prefix (py_lower w) (py_lower r)" by (simp add: r py_lower_def)
  have b1: "word_boundary l r" using w(1,2) left unfolding word_boundary_def r by simp
  have b2: "word_boundary (l @ take (length (py_lower w)) r) (drop (length (py_lower w)) r)"
    using w(1,3) right unfolding word_boundary_def r len by simp
  from kw p b2 have "\<exists>kw\<in>set bug_keywords. prefix kw (py_lower r)
      \<and> word_boundary (l @ take (length kw) r) (drop (length kw) r)"
    by (rule_tac x = "py_lower w" in bexI) simp_all
  with b1 show "bug_keyword_at l r"
    unfolding bug_keyword_at_def list_ex_iff by simp
qed

lemma BUG_KEYWORDS_search_iff:
  "BUG_KEYWORDS_search text \<longleftrightarrow>
     (\<exists>pre w post. text = pre @ w @ post \<and> py_lower w \<in> set bug_keywords
        \<and> (pre = [] \<or> \<not> is_word_char (last pre)) \<and> (post = [] \<or> \<not> is_word_char (hd post)))"
proof
  assume "BUG_KEYWORDS_search text"
  then obtain i where "bug_keyword_at (take i text) (drop i text)"
    unfolding BUG_KEYWORDS_search_def list_ex_iff by blast
  then obtain w post where "drop i text = w @ post" "py_lower w \<in> set bug_keywords"
     "take i text = [] \<or> \<not> is_word_char (last (take i text))" "post = [] \<or> \<not> is_word_char (hd post)"
    unfolding bug_keyword_at_iff by blast
  moreover have "text = take i text @ drop i text" by simp
  ultimately have "text = take i text @ w @ post \<and> py_lower w \<in> set bug_keywords
        \<and> (take i text = [] \<or> \<not> is_word_char (last (take i text))) \<and> (post = [] \<or> \<not> is_word_char (hd post))"
    by simp
  then show "\<exists>pre w post. text = pre @ w @ post \<and> py_lower w \<in> set bug_keywords
        \<and> (pre = [] \<or> \<not> is_word_char (last pre)) \<and> (post = [] \<or> \<not> is_word_char (hd post))"
    by blast
next
  assume "\<exists>pre w post. text = pre @ w @ post \<and> py_lower w \<in> set bug_keywords
        \<and> (pre = [] \<or> \<not> is_word_char (last pre)) \<and> (post = [] \<or> \<not> is_word_char (hd post))"
  then obtain pre w post where t: "text = pre @ w @ post" and rest: "py_lower w \<in> set bug_keywords"
        "pre = [] \<or> \<not> is_word_char (last pre)" "post = [] \<or> \<not> is_word_char (hd post)"
    by blast
  then have "bug_keyword_at pre (w @ post)" unfolding bug_keyword_at_iff by blast
  then have "bug_keyword_at (take (length pre) text) (drop (length pre) text)" by (simp add: t)
  moreover have "length pre \<in> set [0..<Suc (length text)]" by (simp add: t)
  ultimately show "BUG_KEYWORDS_search text"
    unfolding BUG_KEYWORDS_search_def list_ex_iff by blast
qed

lemma has_keyword_iff:
  "has_keyword FIX_KEYWORDS (py_lower diff_content) \<longleftrightarrow>
    (\<exists>kw\<in>set FIX_KEYWORDS. \<exists>pre post. py_lower diff_content = pre @ kw @ post)"
  by (auto simp: has_keyword_def list_ex_iff sublist_def)

text \<open>
  C3 as stated fails for the whole-diff detector of \<open>run.py\<close>: its fix-keyword test is
  a substring test, so a diff text holding \<open>prefix\<close> is classified \<open>fix\<close>.
\<close>

theorem fix_keyword_substring:
  "has_keyword FIX_KEYWORDS (py_lower ''+prefix = 1'')
   \<and> run_detect_type [\<lparr>status = ''M'', path = ''a.py''\<rparr>] ''+prefix = 1'' = ''fix''"
  by code_simp

text \<open>
  C3, amended: the bug-keyword predicate of \<open>analyze.py\<close> holds on a text exactly when
  the text holds, as a whole word and in any case, one of the eleven keywords of
  \<open>bug_keywords\<close>: the text is \<open>pre @ w @ post\<close> where \<open>w\<close> in lower case is a keyword,
  \<open>pre\<close> is empty or ends in a character that is no word character, and \<open>post\<close> is empty
  or starts with one; \<open>prefix\<close> does not satisfy it. The fix-keyword predicate of
  \<open>run.py\<close> holds exactly when the lower-cased diff text holds one of the seven keywords
  of \<open>FIX_KEYWORDS\<close> as a substring.
\<close>

theorem bug_keyword_predicates:
  "(BUG_KEYWORDS_search text \<longleftrightarrow>
     (\<exists>pre w post. text = pre @ w @ post \<and> py_lower w \<in> set bug_keywords
        \<and> (pre = [] \<or> \<not> is_word_char (last pre))
        \<and> (post = [] \<or> \<not> is_word_char (hd post))))
   \<and> \<not> BUG_KEYWORDS_search ''prefix''
   \<and> (has_keyword FIX_KEYWORDS (py_lower diff_content) \<longleftrightarrow>
        (\<exists>kw\<in>set FIX_KEYWORDS. \<exists>pre post. py_lower diff_content = pre @ kw @ post))"
proof (intro conjI)
  show "BUG_KEYWORDS_search text \<longleftrightarrow>
     (\<exists>pre w post. text = pre @ w @ post \<and> py_lower w \<in> set bug_keywords
        \<and> (pre = [] \<or> \<not> is_word_char (last pre))
        \<and> (post = [] \<or> \<not> is_word_char (hd post)))"
    by (rule BUG_KEYWORDS_search_iff)
  show "\<not> BUG_KEYWORDS_search ''prefix''" by code_simp
  show "has_keyword FIX_KEYWORDS (py_lower diff_content) \<longleftrightarrow>
        (\<exists>kw\<in>set FIX_KEYWORDS. \<exists>pre post. py_lower diff_content = pre @ kw @ post)"
    by (rule has_keyword_iff)
qed

theorem bug_keyword_predicates_witness:
  "(\<exists>pre w post. ''apply Fix now'' = pre @ w @ post \<and> py_lower w \<in> set bug_keywords
        \<and> (pre = [] \<or> \<not> is_word_char (last pre))
        \<and> (post = [] \<or> \<not> is_word_char (hd post)))
   \<and> BUG_KEYWORDS_search ''apply Fix now''"
proof -
  have s: "BUG_KEYWORDS_search ''apply Fix now''" by code_simp
  note inst = bug_keyword_predicates [of "''apply Fix now''" "[]", THEN conjunct1]
  from inst s have "\<exists>pre w post. ''apply Fix now'' = pre @ w @ post
        \<and> py_lower w \<in> set bug_keywords
        \<and> (pre = [] \<or> \<not> is_word_char (last pre))
        \<and> (post = [] \<or> \<not> is_word_char (hd post))"
    by (rule iffD1)
  then show ?thesis using s by (rule conjI)
qed

section \<open>The case of the detected scope\<close>

lemma py_max_from_mem: "py_max_from key b xs \<in> set (b # xs)"
  by (induction xs arbitrary: b) (auto split: if_splits)

lemma change_counts_fold_keys:
  "fst ` set (foldl (\<lambda>d f. AList.update (new_path f)
                     (int (length (added_lines f)) + int (length (deleted_lines f))) d) d files)
   = fst ` set d \<union> new_path ` set files"
  by (induction files arbitrary: d) (auto simp: dom_update)

lemma change_counts_keys: "fst ` set (change_counts files) = new_path ` set files"
  unfolding change_counts_def by (simp add: change_counts_fold_keys)

lemma single_scope_candidate:
  "(let parts = split_on (CHR ''/'') p
    in if length parts = 1 then py_lower (fst (splitext (hd parts))) else py_lower (hd parts))
   = py_lower (scope_candidate p)"
  using split_on_nonempty [of "CHR ''/''" p]
  by (cases "split_on (CHR ''/'') p") (auto simp: scope_candidate_def Let_def)

lemma most_changed_scope_candidate:
  "(let parts = split_on (CHR ''/'') p
    in if length parts > 1 then py_lower (hd parts) else py_lower (fst (splitext (hd parts))))
   = py_lower (scope_candidate p)"
  by (auto simp: scope_candidate_def Let_def)

lemma analyze_scope_of_key:
  "analyze_detect_scope files = []
   \<or> (\<exists>p\<in>fst ` set (change_counts files).
        analyze_detect_scope files = py_lower (scope_candidate p))"
proof (cases "files = []")
  case True
  then show ?thesis by (simp add: analyze_detect_scope_def)
next
  case ne: False
  show ?thesis
  proof (cases "change_counts files")
    case Nil
    with ne show ?thesis by (simp add: analyze_detect_scope_def)
  next
    case (Cons item others)
    show ?thesis
    proof (cases "others = []")
      case True
      with ne Cons have "analyze_detect_scope files = py_lower (scope_candidate (fst item))"
        using single_scope_candidate [of "fst item"]
        by (simp add: analyze_detect_scope_def Let_def)
      then show ?thesis using Cons by auto
    next
      case multi: False
      define dirs where
        "dirs = remdups (map (\<lambda>(path, n). scope_candidate path) (item # others))"
      define most where "most = fst (py_max_from snd item others)"
      have res: "analyze_detect_scope files =
          (if length dirs = 1 then py_lower (hd dirs) else py_lower (scope_candidate most))"
        using ne Cons multi most_changed_scope_candidate [of most]
        by (simp add: analyze_detect_scope_def Let_def dirs_def most_def)
      have most_in: "most \<in> fst ` set (change_counts files)"
        unfolding most_def Cons using py_max_from_mem [of snd item others] by (intro imageI)
      have "dirs \<noteq> []" unfolding dirs_def remdups_eq_nil_iff by simp
      then have "hd dirs \<in> set dirs" by simp
      moreover have "set dirs = (\<lambda>(path, n). scope_candidate path) ` set (change_counts files)"
        unfolding dirs_def Cons set_remdups set_map ..
      ultimately obtain q where q: "q \<in> set (change_counts files)"
        and hd: "hd dirs = (\<lambda>(path, n). scope_candidate path) q" by blast
      from hd have "hd dirs = scope_candidate (fst q)" by (simp add: case_prod_beta)
      with q have "\<exists>p\<in>fst ` set (change_counts files). hd dirs = scope_candidate p"
        by (intro bexI [of _ "fst q"]) simp_all
      then obtain p where p: "p \<in> fst ` set (change_counts files)"
        and hdp: "hd dirs = scope_candidate p" ..
      show ?thesis
      proof (cases "length dirs = 1")
        case True
        with res hdp have "analyze_detect_scope files = py_lower (scope_candidate p)" by simp
        with p show ?thesis by blast
      next
        case False
        with res have "analyze_detect_scope files = py_lower (scope_candidate most)" by simp
        with most_in show ?thesis by blast
      qed
    qed
  qed
qed

lemma analyze_scope_candidate:
  "analyze_detect_scope files = []
   \<or> (\<exists>f\<in>set files. analyze_detect_scope files = py_lower (scope_candidate (new_path f)))"
  using analyze_scope_of_key [of files] unfolding change_counts_keys by auto

lemma analyze_scope_lower: "\<forall>c\<in>set (analyze_detect_scope files). \<not> is_upper c"
  using analyze_scope_candidate [of files] py_lower_no_upper by auto

lemma dir_counts_fold_keys:
  "fst ` set (foldl (\<lambda>dc d. if d \<noteq> []
                    then AList.update d ((case map_of dc d of None \<Rightarrow> 0 | Some n \<Rightarrow> n) + 1) dc
                    else dc) dc dirs)
   \<subseteq> fst ` set dc \<union> set dirs"
proof (induction dirs arbitrary: dc)
  case Nil
  show ?case by simp
next
  case (Cons d dirs)
  show ?case using Cons.IH [of "if d \<noteq> []
                    then AList.update d ((case map_of dc d of None \<Rightarrow> 0 | Some n \<Rightarrow> n) + 1) dc
                    else dc"]
    by (auto simp: dom_update split: if_splits)
qed

lemma dir_counts_keys: "fst ` set (dir_counts dirs) \<subseteq> set dirs"
  unfolding dir_counts_def using dir_counts_fold_keys [of "[]" dirs] by simp

lemma scope_dir_part:
  assumes "length parts > 1"
  shows "scope_dir parts \<in> set parts"
proof -
  from assms obtain a b rest where "parts = a # b # rest"
    by (cases parts; cases "tl parts") auto
  then show ?thesis by (simp add: scope_dir_def Let_def)
qed

lemma scope_dirs_parts:
  "d \<in> set (scope_dirs files) \<Longrightarrow> \<exists>f\<in>set files. d \<in> set (path_parts (path f))"
proof -
  assume "d \<in> set (scope_dirs files)"
  then obtain f where f: "f \<in> set files" and len: "length (path_parts (path f)) > 1"
    and d: "d = scope_dir (path_parts (path f))"
    by (auto simp: scope_dirs_def Let_def split: if_splits)
  from scope_dir_part [OF len] d have "d \<in> set (path_parts (path f))" by simp
  with f show ?thesis by blast
qed

lemma run_scope_part:
  "run_detect_scope staged = []
   \<or> (\<exists>f\<in>set staged. run_detect_scope staged \<in> set (path_parts (path f)))"
proof (cases "dir_counts (scope_dirs staged)")
  case Nil
  then show ?thesis by (simp add: run_detect_scope_def Let_def)
next
  case (Cons item others)
  define r where "r = fst (py_max_from snd item others)"
  have "r \<in> fst ` set (dir_counts (scope_dirs staged))"
    unfolding r_def Cons using py_max_from_mem [of snd item others] by (intro imageI)
  with dir_counts_keys have "r \<in> set (scope_dirs staged)" by blast
  from scope_dirs_parts [OF this] have "\<exists>f\<in>set staged. r \<in> set (path_parts (path f))" .
  moreover have "run_detect_scope staged = [] \<or> run_detect_scope staged = r"
    using Cons by (simp add: run_detect_scope_def Let_def r_def)
  ultimately show ?thesis by auto
qed

text \<open>
  C7 as stated fails for the scope detector of \<open>run.py\<close>, which returns the directory
  name as the path spells it.
\<close>

theorem run_scope_upper_case:
  "run_detect_scope [\<lparr>status = ''M'', path = ''Foo/bar.py''\<rparr>] = ''Foo''
   \<and> is_upper (CHR ''F'')"
  by code_simp

lemma lower_char_idem: "lower_char (lower_char c) = lower_char c"
  unfolding lower_char_def is_upper_def Let_def
  by auto

lemma py_lower_idem: "py_lower (py_lower s) = py_lower s"
  by (simp add: py_lower_def lower_char_idem)

lemma analyze_scope_fixed: "py_lower (analyze_detect_scope files) = analyze_detect_scope files"
  using analyze_scope_candidate [of files]
  by (auto simp: py_lower_idem) (simp add: py_lower_def)

text \<open>
  C7, amended: for every file sequence the scope detector of \<open>analyze.py\<close> returns the
  empty string or \<open>lower()\<close> of the scope candidate (first path segment, or root-level
  filename without its extension) of one of the files, a string that \<open>lower()\<close> leaves
  as it is. For paths over the code points below 256, the texts of this model, that
  string holds no uppercase character; beyond that range \<open>lower()\<close> leaves some
  uppercase characters unchanged, and the claim does not extend to them. The scope
  detector of \<open>run.py\<close> returns the empty string or a component of one of the paths,
  in the case the path has.
\<close>

theorem scope_case:
  "(\<forall>c\<in>set (analyze_detect_scope files). \<not> is_upper c)
   \<and> (analyze_detect_scope files = []
        \<or> (\<exists>f\<in>set files.
              analyze_detect_scope files = py_lower (scope_candidate (new_path f))))
   \<and> py_lower (analyze_detect_scope files) = analyze_detect_scope files
   \<and> (run_detect_scope staged = []
        \<or> (\<exists>f\<in>set staged. run_detect_scope staged \<in> set (path_parts (path f))))"
  using analyze_scope_lower [of files] analyze_scope_candidate [of files]
    analyze_scope_fixed [of files] run_scope_part [of staged]
  by (intro conjI)

theorem scope_case_witness:
  "analyze_detect_scope
     [\<lparr>old_path = ''Api/a.py'', new_path = ''Api/a.py'', is_new = False, is_deleted = False,
        added_lines = [''x'', ''y''], deleted_lines = [''z'']\<rparr>,
      \<lparr>old_path = ''Lib/b.py'', new_path = ''Lib/b.py'', is_new = False, is_deleted = False,
        added_lines = [''x''], deleted_lines = []\<rparr>] = ''api''
   \<and> list_all (\<lambda>c. \<not> is_upper c) (analyze_detect_scope
     [\<lparr>old_path = ''Api/a.py'', new_path = ''Api/a.py'', is_new = False, is_deleted = False,
        added_lines = [''x'', ''y''], deleted_lines = [''z'']\<rparr>,
      \<lparr>old_path = ''Lib/b.py'', new_path = ''Lib/b.py'', is_new = False, is_deleted = False,
        added_lines = [''x''], deleted_lines = []\<rparr>])"
proof -
  let ?fs = "[\<lparr>old_path = ''Api/a.py'', new_path = ''Api/a.py'', is_new = False, is_deleted = False,
        added_lines = [''x'', ''y''], deleted_lines = [''z'']\<rparr>,
      \<lparr>old_path = ''Lib/b.py'', new_path = ''Lib/b.py'', is_new = False, is_deleted = False,
        added_lines = [''x''], deleted_lines = []\<rparr>]"
  have v: "analyze_detect_scope ?fs = ''api''" by code_simp
  have "\<forall>c\<in>set (analyze_detect_scope ?fs). \<not> is_upper c"
    by (rule scope_case [of ?fs "[]", THEN conjunct1])
  then have "list_all (\<lambda>c. \<not> is_upper c) (analyze_detect_scope ?fs)"
    unfolding list_all_iff .
  with v show ?thesis by (rule conjI)
qed

section \<open>A diff that touches only README.md\<close>

text \<open>
  C4 as stated fails for the scope detector of \<open>analyze.py\<close>: the scope of a single
  root-level file is its name without the extension, in lower case.
\<close>

theorem readme_scope_analyze:
  "analyze_detect_scope
     [\<lparr>old_path = ''README.md'', new_path = ''README.md'', is_new = False, is_deleted = False,
       added_lines = [''More text.''], deleted_lines = [''Text.'']\<rparr>] = ''readme''"
  by code_simp

text \<open>
  C4, amended: for a diff whose only changed file is a modified \<open>README.md\<close> (neither new
  nor deleted, status M), both detectors give the type docs and the subject
  \<open>update README.md\<close>; the detected scope is the empty string in \<open>run.py\<close> and
  \<open>readme\<close> in \<open>analyze.py\<close>.
\<close>

theorem readme_only:
  "analyze_detect_type
     [\<lparr>old_path = old, new_path = ''README.md'', is_new = False, is_deleted = False,
       added_lines = added, deleted_lines = deleted\<rparr>] = Inr ''docs''
   \<and> analyze_detect_scope
     [\<lparr>old_path = old, new_path = ''README.md'', is_new = False, is_deleted = False,
       added_lines = added, deleted_lines = deleted\<rparr>] = ''readme''
   \<and> detect_summary
     [\<lparr>old_path = old, new_path = ''README.md'', is_new = False, is_deleted = False,
       added_lines = added, deleted_lines = deleted\<rparr>] ''docs'' = ''update README.md''
   \<and> run_detect_type [\<lparr>status = ''M'', path = ''README.md''\<rparr>] diff_content = ''docs''
   \<and> run_detect_scope [\<lparr>status = ''M'', path = ''README.md''\<rparr>] = []
   \<and> generate_subject [\<lparr>status = ''M'', path = ''README.md''\<rparr>] ''docs''
       = ''update README.md''"
  by code_simp

theorem readme_only_witness:
  "analyze_detect_type
     [\<lparr>old_path = ''README.md'', new_path = ''README.md'', is_new = False, is_deleted = False,
       added_lines = [''fix the crash''], deleted_lines = []\<rparr>] = Inr ''docs''
   \<and> run_detect_type [\<lparr>status = ''M'', path = ''README.md''\<rparr>] [] = ''docs''"
proof -
  note inst = readme_only [of "''README.md''" "[''fix the crash'']" "[]" "[]"]
  from inst [THEN conjunct1]
    inst [THEN conjunct2, THEN conjunct2, THEN conjunct2, THEN conjunct1]
  show ?thesis by (rule conjI)
qed

section \<open>Type detection by votes\<close>

lemma vote_step_first_rule: "vote_step signals f = incr (first_rule f) signals"
  by (simp add: vote_step_def first_rule_def type_rules_def Let_def)

lemma first_rule_key:
  "first_rule f \<in> set [''feat'', ''fix'', ''test'', ''docs'', ''chore'', ''style'', ''refactor'']"
  by (simp add: first_rule_def type_rules_def)

lemma vote_loop_counts:
  "foldl vote_step signals files
     = map (\<lambda>(k, v). (k, v + votes files k)) signals"
proof (induction files arbitrary: signals)
  case Nil
  show ?case by (simp add: votes_def count_where_def)
next
  case (Cons f files)
  have "foldl vote_step signals (f # files) = foldl vote_step (incr (first_rule f) signals) files"
    by (simp add: vote_step_first_rule)
  also have "\<dots> = map (\<lambda>(k, v). (k, v + votes files k)) (incr (first_rule f) signals)"
    by (rule Cons.IH)
  also have "\<dots> = map (\<lambda>(k, v). (k, v + votes (f # files) k)) signals"
    by (auto simp: incr_def votes_def count_where_def)
  finally show ?case .
qed

lemma py_max_from_first:
  "\<exists>pre post. b # xs = pre @ py_max_from key b xs # post
      \<and> (\<forall>x\<in>set pre. key x < key (py_max_from key b xs))
      \<and> (\<forall>x\<in>set post. key x \<le> key (py_max_from key b xs))"
proof (induction xs arbitrary: b)
  case Nil
  have "[b] = [] @ b # []" by simp
  then show ?case by fastforce
next
  case (Cons x xs)
  define b' where "b' = (if key x > key b then x else b)"
  define w where "w = py_max_from key b' xs"
  have w: "py_max_from key b (x # xs) = w" by (simp add: w_def b'_def)
  from Cons.IH [of b'] obtain pre post where e: "b' # xs = pre @ w # post"
    and lt: "\<forall>x\<in>set pre. key x < key w" and le: "\<forall>x\<in>set post. key x \<le> key w"
    unfolding w_def by blast
  show ?case
  proof (cases "key x > key b")
    case True
    then have b': "b' = x" by (simp add: b'_def)
    have "key x \<le> key w"
    proof (cases pre)
      case Nil
      with e b' show ?thesis by simp
    next
      case (Cons p pre')
      with e b' lt show ?thesis by auto
    qed
    with True have "key b < key w" by simp
    with lt have "\<forall>y\<in>set (b # pre). key y < key w" by simp
    moreover have "b # x # xs = (b # pre) @ w # post" using e b' by simp
    ultimately show ?thesis unfolding w using le by blast
  next
    case False
    then have b': "b' = b" by (simp add: b'_def)
    show ?thesis
    proof (cases pre)
      case Nil
      with e b' have wb: "w = b" and xs: "xs = post" by simp_all
      have "b # x # xs = [] @ w # (x # post)" using wb xs by simp
      moreover have "\<forall>y\<in>set (x # post). key y \<le> key w" using le False wb by simp
      ultimately show ?thesis unfolding w by fastforce
    next
      case (Cons p pre')
      with e b' have p: "p = b" and xs: "xs = pre' @ w # post" by simp_all
      from lt Cons p have bw: "key b < key w" by simp
      have "b # x # xs = (b # x # pre') @ w # post" using xs by simp
      moreover have "\<forall>y\<in>set (b # x # pre'). key y < key w" using lt Cons bw False by auto
      ultimately show ?thesis unfolding w using le by blast
    qed
  qed
qed

lemma best_of_items:
  fixes v :: "'a \<Rightarrow> int"
  assumes best: "best = py_max_from snd (k0, v k0) (map (\<lambda>t. (t, v t)) ks)"
  shows "\<exists>pre post. k0 # ks = pre @ fst best # post
      \<and> snd best = v (fst best)
      \<and> (\<forall>t\<in>set pre. v t < snd best)
      \<and> (\<forall>t\<in>set (k0 # ks). v t \<le> snd best)"
proof -
  define f where "f = (\<lambda>t. (t, v t))"
  define keys where "keys = k0 # ks"
  from py_max_from_first [of "(k0, v k0)" "map f ks" snd]
  obtain P Q where e: "(k0, v k0) # map f ks = P @ best # Q"
    and lt: "\<forall>x\<in>set P. snd x < snd best" and le: "\<forall>x\<in>set Q. snd x \<le> snd best"
    unfolding best f_def by blast
  from e have m: "map f keys = P @ best # Q" by (simp add: keys_def f_def)
  define n where "n = length P"
  have n: "n < length keys" using arg_cong [OF m, of length] by (simp add: n_def)
  have "take n (map f keys) = take n (P @ best # Q)" by (simp only: m)
  then have P: "P = map f (take n keys)" by (simp add: n_def take_map)
  have "drop (Suc n) (map f keys) = drop (Suc n) (P @ best # Q)" by (simp only: m)
  then have Q: "Q = map f (drop (Suc n) keys)" by (simp add: n_def drop_map)
  have "map f keys ! n = (P @ best # Q) ! n" by (simp only: m)
  then have w: "best = f (keys ! n)" using n by (simp add: n_def)
  have split: "keys = take n keys @ keys ! n # drop (Suc n) keys"
    using n by (rule id_take_nth_drop)
  define pre where "pre = take n keys"
  define post where "post = drop (Suc n) keys"
  from w have ft: "fst best = keys ! n" and sv: "snd best = v (keys ! n)"
    by (simp_all add: f_def)
  have k: "keys = pre @ fst best # post" using split by (simp add: pre_def post_def ft)
  have pre_lt: "\<forall>t\<in>set pre. v t < snd best"
  proof
    fix t assume "t \<in> set pre"
    then have "f t \<in> set P" unfolding P pre_def by simp
    with lt have "snd (f t) < snd best" by blast
    then show "v t < snd best" by (simp add: f_def)
  qed
  have post_le: "\<forall>t\<in>set post. v t \<le> snd best"
  proof
    fix t assume "t \<in> set post"
    then have "f t \<in> set Q" unfolding Q post_def by simp
    with le have "snd (f t) \<le> snd best" by blast
    then show "v t \<le> snd best" by (simp add: f_def)
  qed
  have all_le: "\<forall>t\<in>set keys. v t \<le> snd best"
  proof
    fix t assume "t \<in> set keys"
    then have "t \<in> set pre \<or> t = fst best \<or> t \<in> set post"
      by (subst (asm) k) auto
    with pre_lt post_le sv ft show "v t \<le> snd best" by fastforce
  qed
  have "k0 # ks = pre @ fst best # post" using k by (simp add: keys_def)
  moreover have "snd best = v (fst best)" using ft sv by simp
  moreover have "\<forall>t\<in>set (k0 # ks). v t \<le> snd best" using all_le by (simp add: keys_def)
  ultimately show ?thesis using pre_lt by blast
qed

lemma signals_after:
  "foldl vote_step initial_signals files =
     (''feat'', votes files ''feat'')
     # map (\<lambda>t. (t, votes files t)) [''fix'', ''test'', ''docs'', ''chore'', ''style'', ''refactor'']"
  unfolding vote_loop_counts by (simp add: initial_signals_def)

lemma votes_nonneg: "0 \<le> votes files t"
  by (simp add: votes_def count_where_def)

lemma votes_Nil: "votes [] t = 0"
  by (simp add: votes_def count_where_def)

lemma votes_Cons: "votes (f # files) t = (if first_rule f = t then 1 else 0) + votes files t"
  by (simp add: votes_def count_where_def)

lemma votes_perf: "votes files ''perf'' = 0"
proof (induction files)
  case Nil
  show ?case by (rule votes_Nil)
next
  case (Cons f files)
  have "first_rule f \<noteq> ''perf''" using first_rule_key [of f] by auto
  with Cons show ?case by (simp add: votes_Cons)
qed

lemma votes_total: "(\<Sum>t\<leftarrow>type_order. votes files t) = int (length files)"
proof (induction files)
  case Nil
  show ?case by (simp add: votes_Nil type_order_def)
next
  case (Cons f files)
  have "(\<Sum>t\<leftarrow>type_order. if first_rule f = t then 1 else 0) = (1::int)"
    using first_rule_key [of f] by (auto simp: type_order_def)
  moreover have "(\<Sum>t\<leftarrow>type_order. votes (f # files) t)
      = (\<Sum>t\<leftarrow>type_order. if first_rule f = t then 1 else 0)
        + (\<Sum>t\<leftarrow>type_order. votes files t)"
    unfolding votes_Cons by (simp add: sum_list_addf)
  ultimately show ?case using Cons by simp
qed

lemma detect_type_winner:
  "(\<forall>t\<in>set type_order. votes files t = 0) \<longrightarrow> analyze_detect_type files = Inr ''chore''"
  "(\<exists>t\<in>set type_order. votes files t \<noteq> 0) \<longrightarrow>
     (\<exists>pre w post. type_order = pre @ w # post \<and> analyze_detect_type files = Inr w
        \<and> (\<forall>t\<in>set type_order. votes files t \<le> votes files w)
        \<and> (\<forall>t\<in>set pre. votes files t < votes files w))"
proof -
  define k0 where "k0 = ''feat''"
  define ks where "ks = [''fix'', ''test'', ''docs'', ''chore'', ''style'', ''refactor'']"
  define best where
    "best = py_max_from snd (k0, votes files k0) (map (\<lambda>t. (t, votes files t)) ks)"
  have order: "type_order = (k0 # ks) @ [''perf'']"
    by (simp add: type_order_def k0_def ks_def)
  have res: "analyze_detect_type files =
      (if files = [] then Inr ''chore''
       else if snd best = 0 then Inr ''chore'' else Inr (fst best))"
    unfolding analyze_detect_type_def signals_after best_def k0_def ks_def
    by (simp add: Let_def)
  from best_of_items [OF best_def]
  obtain pre post where k: "k0 # ks = pre @ fst best # post"
    and sv: "snd best = votes files (fst best)"
    and lt: "\<forall>t\<in>set pre. votes files t < snd best"
    and le: "\<forall>t\<in>set (k0 # ks). votes files t \<le> snd best"
    by blast
  have best_in: "fst best \<in> set type_order"
    unfolding order by (subst k) simp
  show "(\<forall>t\<in>set type_order. votes files t = 0) \<longrightarrow> analyze_detect_type files = Inr ''chore''"
  proof
    assume "\<forall>t\<in>set type_order. votes files t = 0"
    with best_in sv have "snd best = 0" by simp
    with res show "analyze_detect_type files = Inr ''chore''" by simp
  qed
  show "(\<exists>t\<in>set type_order. votes files t \<noteq> 0) \<longrightarrow>
     (\<exists>pre w post. type_order = pre @ w # post \<and> analyze_detect_type files = Inr w
        \<and> (\<forall>t\<in>set type_order. votes files t \<le> votes files w)
        \<and> (\<forall>t\<in>set pre. votes files t < votes files w))"
  proof
    assume "\<exists>t\<in>set type_order. votes files t \<noteq> 0"
    then obtain t0 where t0: "t0 \<in> set type_order" and nz: "votes files t0 \<noteq> 0" by blast
    from nz have ne: "files \<noteq> []" using votes_Nil [of t0] by auto
    from nz votes_perf have "t0 \<noteq> ''perf''" by auto
    with t0 have "t0 \<in> set (k0 # ks)" unfolding order by simp
    with le have "votes files t0 \<le> snd best" by blast
    moreover from nz votes_nonneg [of files t0] have "0 < votes files t0" by simp
    ultimately have pos: "0 < snd best" by simp
    with res ne have r: "analyze_detect_type files = Inr (fst best)" by simp
    have o: "type_order = pre @ fst best # (post @ [''perf''])"
      unfolding order by (subst k) simp
    have all_le: "\<forall>t\<in>set type_order. votes files t \<le> votes files (fst best)"
    proof
      fix t assume "t \<in> set type_order"
      then have "t \<in> set (k0 # ks) \<or> t = ''perf''" unfolding order by auto
      then show "votes files t \<le> votes files (fst best)"
      proof
        assume "t \<in> set (k0 # ks)"
        with le have "votes files t \<le> snd best" by blast
        with sv show ?thesis by simp
      next
        assume "t = ''perf''"
        with votes_perf [of files] pos sv show ?thesis by simp
      qed
    qed
    have pre_lt: "\<forall>t\<in>set pre. votes files t < votes files (fst best)"
      using lt sv by simp
    from o r all_le pre_lt
    show "\<exists>pre w post. type_order = pre @ w # post \<and> analyze_detect_type files = Inr w
        \<and> (\<forall>t\<in>set type_order. votes files t \<le> votes files w)
        \<and> (\<forall>t\<in>set pre. votes files t < votes files w)"
      by blast
  qed
qed

lemma votes_some:
  assumes "files \<noteq> []"
  shows "\<exists>t\<in>set type_order. votes files t \<noteq> 0"
proof (rule ccontr)
  assume "\<not> (\<exists>t\<in>set type_order. votes files t \<noteq> 0)"
  then have "(\<Sum>t\<leftarrow>type_order. votes files t) = 0"
    by (simp add: type_order_def)
  with votes_total [of files] assms show False by simp
qed

text \<open>
  C1: each file adds one to exactly one signal, that of the first rule that holds in the
  order test path, doc path, chore path, new file, bug keyword in the added lines,
  style only, refactor like, new construct added, fallback; so after the loop every
  signal is the number of files of its type, and the votes add up to the number of
  files. The detector returns the type with the most votes, the first in the order
  feat, fix, test, docs, chore, style, refactor, perf among those with the most, and
  \<open>chore\<close> when every count is zero; a non-empty sequence has a count that is not zero.
\<close>

theorem detect_type_by_votes:
  "vote_step signals f = incr (first_rule f) signals
   \<and> foldl vote_step initial_signals files =
       map (\<lambda>t. (t, votes files t))
         [''feat'', ''fix'', ''test'', ''docs'', ''chore'', ''style'', ''refactor'']
   \<and> votes files ''perf'' = 0
   \<and> (\<Sum>t\<leftarrow>type_order. votes files t) = int (length files)
   \<and> (files \<noteq> [] \<longrightarrow> (\<exists>t\<in>set type_order. votes files t \<noteq> 0))
   \<and> ((\<forall>t\<in>set type_order. votes files t = 0) \<longrightarrow>
        analyze_detect_type files = Inr ''chore'')
   \<and> ((\<exists>t\<in>set type_order. votes files t \<noteq> 0) \<longrightarrow>
        (\<exists>pre w post. type_order = pre @ w # post \<and> analyze_detect_type files = Inr w
           \<and> (\<forall>t\<in>set type_order. votes files t \<le> votes files w)
           \<and> (\<forall>t\<in>set pre. votes files t < votes files w)))"
proof (intro conjI)
  show "vote_step signals f = incr (first_rule f) signals"
    by (rule vote_step_first_rule)
  show "foldl vote_step initial_signals files =
       map (\<lambda>t. (t, votes files t))
         [''feat'', ''fix'', ''test'', ''docs'', ''chore'', ''style'', ''refactor'']"
    unfolding signals_after by simp
  show "votes files ''perf'' = 0" by (rule votes_perf)
  show "(\<Sum>t\<leftarrow>type_order. votes files t) = int (length files)" by (rule votes_total)
  show "files \<noteq> [] \<longrightarrow> (\<exists>t\<in>set type_order. votes files t \<noteq> 0)"
    using votes_some [of files] by (rule impI)
  show "(\<forall>t\<in>set type_order. votes files t = 0) \<longrightarrow>
        analyze_detect_type files = Inr ''chore''"
    by (rule detect_type_winner(1))
  show "(\<exists>t\<in>set type_order. votes files t \<noteq> 0) \<longrightarrow>
        (\<exists>pre w post. type_order = pre @ w # post \<and> analyze_detect_type files = Inr w
           \<and> (\<forall>t\<in>set type_order. votes files t \<le> votes files w)
           \<and> (\<forall>t\<in>set pre. votes files t < votes files w))"
    by (rule detect_type_winner(2))
qed

theorem detect_type_by_votes_witness:
  "(\<exists>pre w post. type_order = pre @ w # post
      \<and> analyze_detect_type
          [\<lparr>old_path = ''b.py'', new_path = ''b.py'', is_new = False, is_deleted = False,
        added_lines = [''return 0  # fix the crash''], deleted_lines = [''return 1'']\<rparr>,
      \<lparr>old_path = ''a.py'', new_path = ''a.py'', is_new = True, is_deleted = False,
        added_lines = [''x = 1''], deleted_lines = []\<rparr>] = Inr w
      \<and> (\<forall>t\<in>set type_order. votes
          [\<lparr>old_path = ''b.py'', new_path = ''b.py'', is_new = False, is_deleted = False,
        added_lines = [''return 0  # fix the crash''], deleted_lines = [''return 1'']\<rparr>,
      \<lparr>old_path = ''a.py'', new_path = ''a.py'', is_new = True, is_deleted = False,
        added_lines = [''x = 1''], deleted_lines = []\<rparr>] t
            \<le> votes
          [\<lparr>old_path = ''b.py'', new_path = ''b.py'', is_new = False, is_deleted = False,
        added_lines = [''return 0  # fix the crash''], deleted_lines = [''return 1'']\<rparr>,
      \<lparr>old_path = ''a.py'', new_path = ''a.py'', is_new = True, is_deleted = False,
        added_lines = [''x = 1''], deleted_lines = []\<rparr>] w)
      \<and> (\<forall>t\<in>set pre. votes
          [\<lparr>old_path = ''b.py'', new_path = ''b.py'', is_new = False, is_deleted = False,
        added_lines = [''return 0  # fix the crash''], deleted_lines = [''return 1'']\<rparr>,
      \<lparr>old_path = ''a.py'', new_path = ''a.py'', is_new = True, is_deleted = False,
        added_lines = [''x = 1''], deleted_lines = []\<rparr>] t
            < votes
          [\<lparr>old_path = ''b.py'', new_path = ''b.py'', is_new = False, is_deleted = False,
        added_lines = [''return 0  # fix the crash''], deleted_lines = [''return 1'']\<rparr>,
      \<lparr>old_path = ''a.py'', new_path = ''a.py'', is_new = True, is_deleted = False,
        added_lines = [''x = 1''], deleted_lines = []\<rparr>] w))
   \<and> analyze_detect_type
          [\<lparr>old_path = ''b.py'', new_path = ''b.py'', is_new = False, is_deleted = False,
        added_lines = [''return 0  # fix the crash''], deleted_lines = [''return 1'']\<rparr>,
      \<lparr>old_path = ''a.py'', new_path = ''a.py'', is_new = True, is_deleted = False,
        added_lines = [''x = 1''], deleted_lines = []\<rparr>] = Inr ''feat''
   \<and> votes
          [\<lparr>old_path = ''b.py'', new_path = ''b.py'', is_new = False, is_deleted = False,
        added_lines = [''return 0  # fix the crash''], deleted_lines = [''return 1'']\<rparr>,
      \<lparr>old_path = ''a.py'', new_path = ''a.py'', is_new = True, is_deleted = False,
        added_lines = [''x = 1''], deleted_lines = []\<rparr>] ''feat'' = 1
   \<and> votes
          [\<lparr>old_path = ''b.py'', new_path = ''b.py'', is_new = False, is_deleted = False,
        added_lines = [''return 0  # fix the crash''], deleted_lines = [''return 1'']\<rparr>,
      \<lparr>old_path = ''a.py'', new_path = ''a.py'', is_new = True, is_deleted = False,
        added_lines = [''x = 1''], deleted_lines = []\<rparr>] ''fix'' = 1
   \<and> analyze_detect_type [] = Inr ''chore''"
proof -
  let ?fs = "[\<lparr>old_path = ''b.py'', new_path = ''b.py'', is_new = False, is_deleted = False,
        added_lines = [''return 0  # fix the crash''], deleted_lines = [''return 1'']\<rparr>,
      \<lparr>old_path = ''a.py'', new_path = ''a.py'', is_new = True, is_deleted = False,
        added_lines = [''x = 1''], deleted_lines = []\<rparr>]"
  note inst = detect_type_by_votes [of "[]" "hd ?fs" ?fs]
  note inst0 = detect_type_by_votes [of "[]" "hd ?fs" "[]"]
  have ne: "?fs \<noteq> []" by simp
  have some: "\<exists>t\<in>set type_order. votes ?fs t \<noteq> 0"
    using inst [THEN conjunct2, THEN conjunct2, THEN conjunct2, THEN conjunct2,
      THEN conjunct1] ne by (rule mp)
  have win: "\<exists>pre w post. type_order = pre @ w # post \<and> analyze_detect_type ?fs = Inr w
           \<and> (\<forall>t\<in>set type_order. votes ?fs t \<le> votes ?fs w)
           \<and> (\<forall>t\<in>set pre. votes ?fs t < votes ?fs w)"
    using inst [THEN conjunct2, THEN conjunct2, THEN conjunct2, THEN conjunct2,
      THEN conjunct2, THEN conjunct2] some by (rule mp)
  have zero: "\<forall>t\<in>set type_order. votes [] t = 0" by (simp add: votes_Nil)
  have empty: "analyze_detect_type [] = Inr ''chore''"
    using inst0 [THEN conjunct2, THEN conjunct2, THEN conjunct2, THEN conjunct2,
      THEN conjunct2, THEN conjunct1] zero by (rule mp)
  have v: "analyze_detect_type ?fs = Inr ''feat''" by code_simp
  have v1: "votes ?fs ''feat'' = 1" by code_simp
  have v2: "votes ?fs ''fix'' = 1" by code_simp
  from win v v1 v2 empty show ?thesis by (intro conjI)
qed

end
